(* ===== verification/Prelude.thy ===== *)
theory Prelude
  imports Complex_Main
begin

text \<open>
  Shared vocabulary of the development: the pieces of the JavaScript runtime that
  \<open>src/src/stores/game.ts\<close> relies on, written as HOL functions, and the generic list
  lemmas the component theories use.
  \<^item> \<open>find_idx\<close> is \<open>Array.prototype.find\<close> returning the position of the first match
    instead of the object: the store's arrays hold objects by reference, and a position
    in the board list is that reference.
  \<^item> \<open>for_each_ref\<close> is \<open>refs.forEach(cell => { cell.f = ... })\<close> over a list of
    such references: each element of the board named by a reference is rewritten in
    place, in order.
  \<^item> \<open>js_at\<close> is JavaScript's \<open>arr[i]\<close>: \<open>undefined\<close> (here \<open>None\<close>) out of range.
\<close>

named_theorems find_idx_simps "characteristic equations of find_idx"
named_theorems ref_update_simps "how for_each_ref changes and keeps list elements"

section \<open>Array.prototype.find, by reference\<close>

fun find_idx :: "('a \<Rightarrow> bool) \<Rightarrow> 'a list \<Rightarrow> nat option" where
  "find_idx P [] = None"
| "find_idx P (x # xs) = (if P x then Some 0 else map_option Suc (find_idx P xs))"

section \<open>forEach over references, mutating each referenced element\<close>

fun for_each_ref :: "('a \<Rightarrow> 'a) \<Rightarrow> nat list \<Rightarrow> 'a list \<Rightarrow> 'a list" where
  "for_each_ref f [] xs = xs"
| "for_each_ref f (i # refs) xs = for_each_ref f refs (xs[i := f (xs ! i)])"

text \<open>The same effect written without references: every position of the list, rewritten
  when it is named. This is the reference definition \<open>for_each_ref\<close> is checked against.\<close>

definition mark_refs :: "('a \<Rightarrow> 'a) \<Rightarrow> nat list \<Rightarrow> 'a list \<Rightarrow> 'a list" where
  "mark_refs f refs xs = map (\<lambda>j. if j \<in> set refs then f (xs ! j) else xs ! j) [0..<length xs]"

section \<open>Array indexing with undefined out of range\<close>

definition js_at :: "'a list \<Rightarrow> int \<Rightarrow> 'a option" where
  "js_at xs i = (if 0 \<le> i \<and> i < int (length xs) then Some (xs ! nat i) else None)"

section \<open>Lemmas on find_idx\<close>

lemma find_idx_None_iff [find_idx_simps]:
  "find_idx P xs = None \<longleftrightarrow> (\<forall>x \<in> set xs. \<not> P x)"
  by (induction xs) auto

lemma find_idx_Some_iff [find_idx_simps]:
  "find_idx P xs = Some i \<longleftrightarrow> i < length xs \<and> P (xs ! i) \<and> (\<forall>j < i. \<not> P (xs ! j))"
proof (induction xs arbitrary: i)
  case Nil
  then show ?case by simp
next
  case (Cons x xs)
  show ?case
  proof (cases i)
    case 0
    then show ?thesis by simp
  next
    case (Suc k)
    have "(\<forall>j < Suc k. \<not> P ((x # xs) ! j)) \<longleftrightarrow> \<not> P x \<and> (\<forall>j < k. \<not> P (xs ! j))"
      by (auto simp: less_Suc_eq_0_disj)
    with Cons.IH Suc show ?thesis by auto
  qed
qed

lemma find_idx_False [simp]:
  "find_idx (\<lambda>x. False) xs = None"
  by (induction xs) auto

lemma find_idx_less:
  "find_idx P xs = Some i \<Longrightarrow> i < length xs"
  by (simp add: find_idx_Some_iff)

lemma find_idx_holds:
  "find_idx P xs = Some i \<Longrightarrow> P (xs ! i)"
  by (simp add: find_idx_Some_iff)

lemma find_idx_map:
  "find_idx P (map f xs) = find_idx (\<lambda>x. P (f x)) xs"
  by (induction xs) auto

text \<open>The search sees the elements only through \<open>f\<close>: lists that agree under \<open>f\<close>
  give the same reference.\<close>

lemma find_idx_cong_map:
  assumes "map f xs = map f ys"
  shows "find_idx (\<lambda>x. P (f x)) xs = find_idx (\<lambda>x. P (f x)) ys"
proof -
  have "find_idx (\<lambda>x. P (f x)) xs = find_idx P (map f xs)"
    by (simp add: find_idx_map)
  also have "\<dots> = find_idx P (map f ys)"
    using assms by simp
  also have "\<dots> = find_idx (\<lambda>x. P (f x)) ys"
    by (simp add: find_idx_map)
  finally show ?thesis .
qed

lemma find_conv_find_idx:
  "find P xs = map_option (\<lambda>i. xs ! i) (find_idx P xs)"
  by (induction xs) (auto simp: option.map_comp comp_def)

text \<open>With a key that is unique in the list, the first match is the only one.\<close>

lemma find_idx_key_distinct:
  assumes "distinct (map f xs)"
  shows "find_idx (\<lambda>x. f x = k) xs = Some i \<longleftrightarrow> i < length xs \<and> f (xs ! i) = k"
proof
  assume "find_idx (\<lambda>x. f x = k) xs = Some i"
  then show "i < length xs \<and> f (xs ! i) = k"
    by (simp add: find_idx_Some_iff)
next
  assume i: "i < length xs \<and> f (xs ! i) = k"
  have "\<forall>j < i. f (xs ! j) \<noteq> k"
  proof (intro allI impI)
    fix j
    assume "j < i"
    with i have "j < length xs" and "j \<noteq> i" by simp_all
    with i assms have "f (xs ! j) \<noteq> f (xs ! i)"
      by (metis distinct_conv_nth length_map nth_map)
    with i show "f (xs ! j) \<noteq> k" by simp
  qed
  with i show "find_idx (\<lambda>x. f x = k) xs = Some i"
    by (simp add: find_idx_Some_iff)
qed

section \<open>Lemmas on for_each_ref\<close>

lemma length_for_each_ref [ref_update_simps]:
  "length (for_each_ref f refs xs) = length xs"
  by (induction refs arbitrary: xs) auto

text \<open>A field that \<open>f\<close> does not write is the same in every element afterwards.\<close>

lemma map_for_each_ref [ref_update_simps]:
  assumes "\<And>x. g (f x) = g x"
  shows "map g (for_each_ref f refs xs) = map g xs"
proof (induction refs arbitrary: xs)
  case Nil
  then show ?case by simp
next
  case (Cons i refs)
  have "map g (xs[i := f (xs ! i)]) = (map g xs)[i := g (xs ! i)]"
    by (simp add: map_update assms)
  also have "\<dots> = map g xs"
    by (metis length_map list_update_beyond list_update_id not_le nth_map)
  finally have "map g (xs[i := f (xs ! i)]) = map g xs" .
  with Cons.IH show ?case by simp
qed

text \<open>
  When \<open>f\<close> only sets fields (so applying it twice is applying it once) and every reference
  is in range, the elements named in the list are rewritten once and the others are left
  alone, whatever the order of the references and however often one repeats.
\<close>

lemma nth_for_each_ref [ref_update_simps]:
  assumes idem: "\<And>x. f (f x) = f x"
    and inr: "\<forall>i \<in> set refs. i < length xs"
    and j: "j < length xs"
  shows "for_each_ref f refs xs ! j = (if j \<in> set refs then f (xs ! j) else xs ! j)"
  using inr j
proof (induction refs arbitrary: xs)
  case Nil
  then show ?case by simp
next
  case (Cons i refs)
  let ?ys = "xs[i := f (xs ! i)]"
  from Cons.prems have "\<forall>k \<in> set refs. k < length ?ys" and "j < length ?ys"
    by auto
  then have "for_each_ref f refs ?ys ! j = (if j \<in> set refs then f (?ys ! j) else ?ys ! j)"
    by (rule Cons.IH)
  moreover from Cons.prems have "?ys ! j = (if j = i then f (xs ! j) else xs ! j)"
    by auto
  ultimately show ?case
    using idem by auto
qed

lemma for_each_ref_eq_mark_refs:
  assumes "\<And>x. f (f x) = f x" and "\<forall>i \<in> set refs. i < length xs"
  shows "for_each_ref f refs xs = mark_refs f refs xs"
  by (rule nth_equalityI) (simp_all add: mark_refs_def length_for_each_ref nth_for_each_ref [OF assms])

lemma length_mark_refs [simp]: "length (mark_refs f refs xs) = length xs"
  by (simp add: mark_refs_def)

lemma nth_mark_refs:
  "j < length xs \<Longrightarrow> mark_refs f refs xs ! j = (if j \<in> set refs then f (xs ! j) else xs ! j)"
  by (simp add: mark_refs_def)

lemma distinct_map_remove1:
  "distinct (map f xs) \<Longrightarrow> distinct (map f (remove1 x xs))"
proof (induction xs)
  case Nil
  then show ?case by simp
next
  case (Cons y ys)
  have "f ` set (remove1 x ys) \<subseteq> f ` set ys"
    using set_remove1_subset by (rule image_mono)
  with Cons show ?case by auto
qed

lemma js_at_Some_iff:
  "js_at xs i = Some x \<longleftrightarrow> 0 \<le> i \<and> i < int (length xs) \<and> xs ! nat i = x"
  by (auto simp: js_at_def)

end
