(* ===== verification/Board.thy ===== *)
theory Board
  imports Prelude
begin

text \<open>
  The data model of \<open>src/src/stores/game.ts\<close>: the \<open>Cell\<close> and \<open>Piece\<close> interfaces
  (lines 3--21) as records, the board as a list of cells in the order the layout supplies
  them, and the two predicates the other theories are stated over: a well-formed layout
  (unique ids, ids derived row-major from the grid position with 9 columns) and the
  occupancy agreement of a cell (\<open>isOccupied\<close> exactly when \<open>pieceId\<close> is set).
  JavaScript numbers that the engine uses as integers are \<open>int\<close>; the pixel attributes
  \<open>x\<close>, \<open>y\<close>, \<open>width\<close>, \<open>height\<close> (\<open>number | undefined\<close>) are carried as
  \<open>real option\<close> and never read by the engine.
\<close>

section \<open>Cells and pieces\<close>

record cell =
  cell_id :: int
  cell_x :: "real option"
  cell_y :: "real option"
  cell_type :: string
  cell_value :: string
  rowIndex :: int
  colIndex :: int
  width :: "real option"
  height :: "real option"
  isOccupied :: bool
  pieceId :: "int option"

record piece =
  piece_id :: int
  shape :: "int list list"
  anchorCell :: "int option"

type_synonym board = "cell list"

text \<open>\<open>const boardCols = 9\<close> (line 26).\<close>

definition boardCols :: int where
  "boardCols = 9"

text \<open>The row-major id of a grid position, the expression of line 32.\<close>

definition grid_id :: "int \<Rightarrow> int \<Rightarrow> int" where
  "grid_id r c = r * boardCols + c + 1"

section \<open>Layout and occupancy predicates\<close>

text \<open>The fields a placement never writes: identity, geometry and labels.\<close>

definition cell_layout :: "cell \<Rightarrow> int \<times> string \<times> string \<times> int \<times> int" where
  "cell_layout c = (cell_id c, cell_type c, cell_value c, rowIndex c, colIndex c)"

definition wf_cell :: "cell \<Rightarrow> bool" where
  "wf_cell c \<longleftrightarrow> 0 \<le> rowIndex c \<and> 0 \<le> colIndex c \<and> colIndex c < boardCols
     \<and> cell_id c = grid_id (rowIndex c) (colIndex c)"

definition wf_board :: "board \<Rightarrow> bool" where
  "wf_board b \<longleftrightarrow> distinct (map cell_id b) \<and> list_all wf_cell b"

definition cell_consistent :: "cell \<Rightarrow> bool" where
  "cell_consistent c \<longleftrightarrow> (isOccupied c \<longleftrightarrow> pieceId c \<noteq> None)"

definition board_consistent :: "board \<Rightarrow> bool" where
  "board_consistent b \<longleftrightarrow> list_all cell_consistent b"

section \<open>A sample layout\<close>

text \<open>
  The layout is supplied from outside the store (\<open>setboardState\<close>); the witnesses of the
  development run on this small well-formed excerpt of a 9-column calendar board: a day,
  a month and dates in row 0, a blocked cell, the last two columns of row 0 and the first
  two of row 1 (to show what happens at the right edge).
\<close>

definition grid_cell :: "int \<Rightarrow> int \<Rightarrow> string \<Rightarrow> string \<Rightarrow> cell" where
  "grid_cell r c ty v = \<lparr>cell_id = grid_id r c, cell_x = None, cell_y = None,
     cell_type = ty, cell_value = v, rowIndex = r, colIndex = c, width = None,
     height = None, isOccupied = False, pieceId = None\<rparr>"

definition demo_board :: board where
  "demo_board =
     [grid_cell 0 0 ''day'' ''MON'', grid_cell 0 1 ''month'' ''JAN'',
      grid_cell 0 2 ''date'' ''15'', grid_cell 0 3 ''blocked'' '''',
      grid_cell 0 7 ''date'' ''16'', grid_cell 0 8 ''date'' ''17'',
      grid_cell 1 0 ''date'' ''18'', grid_cell 1 1 ''date'' ''19'']"

section \<open>Lemmas\<close>

text \<open>On a well-formed board the grid position determines the id and back.\<close>

lemma grid_id_inj:
  assumes "0 \<le> c" "c < boardCols" "0 \<le> c'" "c' < boardCols"
  shows "grid_id r c = grid_id r' c' \<longleftrightarrow> r = r' \<and> c = c'"
proof
  assume eq: "grid_id r c = grid_id r' c'"
  then have "r * 9 + c = r' * 9 + c'"
    by (simp add: grid_id_def boardCols_def)
  with assms have "r = r'"
    by (simp add: boardCols_def)
  with eq show "r = r' \<and> c = c'"
    by (simp add: grid_id_def)
qed simp

lemma wf_board_distinct:
  "wf_board b \<Longrightarrow> distinct (map cell_id b)"
  by (simp add: wf_board_def)

lemma wf_board_nth:
  "wf_board b \<Longrightarrow> i < length b \<Longrightarrow> wf_cell (b ! i)"
  by (simp add: wf_board_def list_all_length)

text \<open>Boards that agree on the layout fields are equally well formed.\<close>

lemma wf_board_layout_cong:
  assumes "map cell_layout b = map cell_layout b'"
  shows "wf_board b \<longleftrightarrow> wf_board b'"
proof -
  have len: "length b = length b'"
    using assms map_eq_imp_length_eq by blast
  have nth: "cell_layout (b ! i) = cell_layout (b' ! i)" if "i < length b" for i
    using assms that by (metis nth_map len)
  then have ids: "map cell_id b = map cell_id b'"
    using len by (intro nth_equalityI) (auto simp: cell_layout_def)
  have "wf_cell (b ! i) \<longleftrightarrow> wf_cell (b' ! i)" if "i < length b" for i
    using nth [OF that] by (simp add: cell_layout_def wf_cell_def)
  with len ids show ?thesis
    by (simp add: wf_board_def list_all_length)
qed

lemma board_consistent_nth:
  "board_consistent b \<Longrightarrow> i < length b \<Longrightarrow> cell_consistent (b ! i)"
  by (simp add: board_consistent_def list_all_length)

lemma wf_demo_board: "wf_board demo_board"
  by (simp add: wf_board_def demo_board_def grid_cell_def wf_cell_def grid_id_def boardCols_def)

lemma board_consistent_demo_board: "board_consistent demo_board"
  by (simp add: board_consistent_def demo_board_def grid_cell_def cell_consistent_def)

end
