(* ===== verification/Coverage.thy ===== *)
theory Coverage
  imports Board
begin

text \<open>
  The coverage resolver \<open>findOccupiedCells\<close> of \<open>src/src/stores/game.ts\<close> (lines
  23--38): the two nested \<open>forEach\<close> loops over the shape matrix, the row-major id of
  each shape cell equal to 1, the \<open>boardState.find\<close> of that id, and the push of the
  found cell. The result is the list of references (positions in the board) in the order
  the loops push them. The lemmas characterise the result: which references it holds, that
  it depends on the board only through the ids, how long it is, and that on a well-formed
  board and a shape that does not cross the right edge it is exactly the cells at the
  shifted grid positions (the contract of spec section 4.1).
\<close>

section \<open>Definitions\<close>

text \<open>\<open>boardState.find(cell => cell.id === r * boardCols + c + 1)\<close> (line 32).\<close>

definition cell_ref_at :: "board \<Rightarrow> int \<Rightarrow> int \<Rightarrow> nat option" where
  "cell_ref_at boardState r c = find_idx (\<lambda>cell. cell_id cell = grid_id r c) boardState"

text \<open>The inner loop (lines 29--35): one row of the shape, at row offset \<open>RowIndex\<close>.\<close>

definition cover_row :: "board \<Rightarrow> cell \<Rightarrow> nat \<Rightarrow> int list \<Rightarrow> nat list" where
  "cover_row boardState anchor RowIndex row =
     concat (map (\<lambda>(ColIndex, col).
       if col = 1 then
         (case cell_ref_at boardState (rowIndex anchor + int RowIndex)
                 (colIndex anchor + int ColIndex) of
            Some cell \<Rightarrow> [cell]
          | None \<Rightarrow> [])
       else []) (enumerate 0 row))"

text \<open>The outer loop (lines 23--38): the rows of the shape, in order.\<close>

definition findOccupiedCells :: "int list list \<Rightarrow> board \<Rightarrow> cell \<Rightarrow> nat list" where
  "findOccupiedCells pieceShapeMatrix boardState anchor =
     concat (map (\<lambda>(RowIndex, row). cover_row boardState anchor RowIndex row)
       (enumerate 0 pieceShapeMatrix))"

text \<open>The shape cells equal to 1, as offsets from the origin, and their number.\<close>

definition shape_cells :: "int list list \<Rightarrow> (nat \<times> nat) set" where
  "shape_cells sh = {(r, c). r < length sh \<and> c < length (sh ! r) \<and> sh ! r ! c = 1}"

definition shape_area :: "int list list \<Rightarrow> nat" where
  "shape_area sh = sum_list (map (\<lambda>row. count_list row 1) sh)"

text \<open>The shape stays left of the board's right edge when anchored at column \<open>c\<close>.\<close>

definition fits_right :: "int list list \<Rightarrow> int \<Rightarrow> bool" where
  "fits_right sh c \<longleftrightarrow>
     list_all (\<lambda>row. list_all (\<lambda>(dc, v). v \<noteq> 1 \<or> c + int dc < boardCols) (enumerate 0 row)) sh"

section \<open>Lemmas on the nested loops\<close>

lemma in_set_concat_enumerate:
  "x \<in> set (concat (map f (enumerate n xs))) \<longleftrightarrow> (\<exists>k < length xs. x \<in> set (f (n + k, xs ! k)))"
proof
  assume "x \<in> set (concat (map f (enumerate n xs)))"
  then obtain p where p: "p \<in> set (enumerate n xs)" and x: "x \<in> set (f p)" by auto
  from p have "n \<le> fst p" "fst p < length xs + n" "xs ! (fst p - n) = snd p"
    by (simp_all add: in_set_enumerate_eq)
  with x show "\<exists>k < length xs. x \<in> set (f (n + k, xs ! k))"
    by (intro exI [of _ "fst p - n"]) (auto simp: prod_eq_iff)
next
  assume "\<exists>k < length xs. x \<in> set (f (n + k, xs ! k))"
  then obtain k where k: "k < length xs" and x: "x \<in> set (f (n + k, xs ! k))" by blast
  from k have "(n + k, xs ! k) \<in> set (enumerate n xs)"
    by (simp add: in_set_enumerate_eq)
  with x show "x \<in> set (concat (map f (enumerate n xs)))" by auto
qed

lemma ball_enumerate:
  "(\<forall>p \<in> set (enumerate n xs). P p) \<longleftrightarrow> (\<forall>k < length xs. P (n + k, xs ! k))"
  by (auto simp: in_set_enumerate_eq) (metis add_diff_inverse_nat less_diff_conv2 not_less
      add.commute)

lemma distinct_concat_enumerate:
  assumes "\<And>k. k < length xs \<Longrightarrow> distinct (f (n + k, xs ! k))"
    and "\<And>k k' x. k < length xs \<Longrightarrow> k' < length xs \<Longrightarrow>
           x \<in> set (f (n + k, xs ! k)) \<Longrightarrow> x \<in> set (f (n + k', xs ! k')) \<Longrightarrow> k = k'"
  shows "distinct (concat (map f (enumerate n xs)))"
  using assms
proof (induction xs arbitrary: n)
  case Nil
  then show ?case by simp
next
  case (Cons y ys)
  have hd: "distinct (f (n, y))"
    using Cons.prems(1) [of 0] by simp
  have tl: "distinct (concat (map f (enumerate (Suc n) ys)))"
  proof (rule Cons.IH)
    fix k assume "k < length ys"
    then show "distinct (f (Suc n + k, ys ! k))"
      using Cons.prems(1) [of "Suc k"] by simp
  next
    fix k k' x
    assume "k < length ys" "k' < length ys"
      "x \<in> set (f (Suc n + k, ys ! k))" "x \<in> set (f (Suc n + k', ys ! k'))"
    then show "k = k'"
      using Cons.prems(2) [of "Suc k" "Suc k'" x] by simp
  qed
  have disj: "x \<notin> set (concat (map f (enumerate (Suc n) ys)))" if "x \<in> set (f (n, y))" for x
  proof
    assume "x \<in> set (concat (map f (enumerate (Suc n) ys)))"
    then obtain k where "k < length ys" "x \<in> set (f (Suc n + k, ys ! k))"
      unfolding in_set_concat_enumerate by blast
    with that show False
      using Cons.prems(2) [of 0 "Suc k" x] by simp
  qed
  show ?case
    using hd tl disj by auto
qed

lemma count_list_enumerate:
  "count_list xs y = sum_list (map (\<lambda>p. if snd p = y then 1 else 0) (enumerate n xs))"
  by (induction xs arbitrary: n) auto

lemma sum_list_map_eq_iff:
  assumes "\<And>x. x \<in> set xs \<Longrightarrow> (f x :: nat) \<le> g x"
  shows "sum_list (map f xs) = sum_list (map g xs) \<longleftrightarrow> (\<forall>x \<in> set xs. f x = g x)"
  using assms
proof (induction xs)
  case Nil
  then show ?case by simp
next
  case (Cons y ys)
  have "sum_list (map f ys) \<le> sum_list (map g ys)"
    using Cons.prems by (intro sum_list_mono) simp
  with Cons show ?case by force
qed

lemma length_concat_enumerate_le:
  assumes "\<And>k x. length (f (k, x)) \<le> g x"
  shows "length (concat (map f (enumerate n xs))) \<le> sum_list (map g xs)"
proof (induction xs arbitrary: n)
  case Nil
  then show ?case by simp
next
  case (Cons x xs)
  have "length (f (n, x)) \<le> g x"
    by (rule assms)
  with Cons.IH [of "Suc n"] show ?case by simp
qed

lemma count_list_sum:
  "count_list xs y = sum_list (map (\<lambda>x. if x = y then 1 else 0) xs)"
  by (induction xs) auto

lemma cell_ref_at_cong:
  "map cell_id b = map cell_id b' \<Longrightarrow> cell_ref_at b r c = cell_ref_at b' r c"
  unfolding cell_ref_at_def by (rule find_idx_cong_map)

lemma length_cover_row:
  "length (cover_row b a r row) =
     sum_list (map (\<lambda>p. if snd p = 1 \<and> cell_ref_at b (rowIndex a + int r) (colIndex a + int (fst p)) \<noteq> None
                        then 1 else 0) (enumerate 0 row))"
  unfolding cover_row_def length_concat map_map
  by (intro arg_cong [where f = sum_list] map_cong refl) (auto split: option.split)

lemma length_cover_row_le: "length (cover_row b a r row) \<le> count_list row 1"
  unfolding length_cover_row count_list_enumerate [where n = 0]
  by (intro sum_list_mono) simp

text \<open>A row of the shape yields one reference per 1-cell exactly when every 1-cell of the
  row lands on an id the board has.\<close>

lemma length_cover_row_eq:
  "length (cover_row b a r row) = count_list row 1 \<longleftrightarrow>
     (\<forall>c < length row. row ! c = 1 \<longrightarrow> cell_ref_at b (rowIndex a + int r) (colIndex a + int c) \<noteq> None)"
proof -
  have "length (cover_row b a r row) = count_list row 1 \<longleftrightarrow>
     (\<forall>p \<in> set (enumerate 0 row).
        (if snd p = 1 \<and> cell_ref_at b (rowIndex a + int r) (colIndex a + int (fst p)) \<noteq> None
         then 1 else 0) = (if snd p = 1 then 1 else (0::nat)))"
    unfolding length_cover_row count_list_enumerate [where n = 0]
    by (rule sum_list_map_eq_iff) simp
  moreover have "((if P \<and> Q then 1 else 0) = (if P then 1 else (0::nat))) \<longleftrightarrow> (P \<longrightarrow> Q)"
    for P Q by simp
  ultimately show ?thesis
    unfolding ball_enumerate by simp
qed

section \<open>What the resolver returns\<close>

text \<open>A reference is in the result exactly when some shape cell equal to 1, shifted by the
  anchor's grid position, has an id that the board's \<open>find\<close> resolves to it.\<close>

lemma bex_shape_cells:
  "(\<exists>(dr, dc) \<in> shape_cells sh. P dr dc) \<longleftrightarrow>
     (\<exists>r < length sh. \<exists>c < length (sh ! r). sh ! r ! c = 1 \<and> P r c)"
  unfolding shape_cells_def by blast

lemma mem_cover_entry:
  "i \<in> set (if (col::int) = 1 then (case r of Some c \<Rightarrow> [c] | None \<Rightarrow> []) else []) \<longleftrightarrow>
     col = 1 \<and> r = Some (i::nat)"
  by (cases "col = 1"; cases r) auto

lemma mem_cover_row:
  "i \<in> set (cover_row b a r row) \<longleftrightarrow>
     (\<exists>c < length row. row ! c = 1 \<and>
        cell_ref_at b (rowIndex a + int r) (colIndex a + int c) = Some i)"
proof -
  have "i \<in> set (cover_row b a r row) \<longleftrightarrow>
     (\<exists>c < length row. i \<in> set (if row ! c = 1 then
        (case cell_ref_at b (rowIndex a + int r) (colIndex a + int c) of
           Some cell \<Rightarrow> [cell] | None \<Rightarrow> []) else []))"
    unfolding cover_row_def in_set_concat_enumerate prod.case add_0 ..
  then show ?thesis
    by (simp only: mem_cover_entry)
qed

lemma findOccupiedCells_mem:
  "i \<in> set (findOccupiedCells sh b a) \<longleftrightarrow>
     (\<exists>(dr, dc) \<in> shape_cells sh.
        cell_ref_at b (rowIndex a + int dr) (colIndex a + int dc) = Some i)"
proof -
  have "i \<in> set (findOccupiedCells sh b a) \<longleftrightarrow>
      (\<exists>r < length sh. i \<in> set (cover_row b a r (sh ! r)))"
    unfolding findOccupiedCells_def in_set_concat_enumerate prod.case add_0 ..
  then show ?thesis
    unfolding bex_shape_cells mem_cover_row by blast
qed

lemma findOccupiedCells_less:
  "i \<in> set (findOccupiedCells sh b a) \<Longrightarrow> i < length b"
  by (auto simp: findOccupiedCells_mem cell_ref_at_def dest: find_idx_less)

text \<open>The resolver reads the board only through the cell ids, and the anchor only through
  its grid position: occupancy and piece ids never change what a shape covers.\<close>

lemma findOccupiedCells_cong:
  assumes "map cell_id b = map cell_id b'"
    and "rowIndex a = rowIndex a'" and "colIndex a = colIndex a'"
  shows "findOccupiedCells sh b a = findOccupiedCells sh b' a'"
proof -
  have eq: "\<And>r c. cell_ref_at b r c = cell_ref_at b' r c"
    using assms(1) by (rule cell_ref_at_cong)
  show ?thesis
    by (simp only: findOccupiedCells_def cover_row_def eq assms(2,3))
qed

text \<open>The resolver returns at most one reference per 1-cell of the shape.\<close>

lemma length_findOccupiedCells_le:
  "length (findOccupiedCells sh b a) \<le> shape_area sh"
proof -
  have "length (cover_row b a k row) \<le> count_list row 1" for k row
    by (rule length_cover_row_le)
  then have "length (concat (map (\<lambda>(k, row). cover_row b a k row) (enumerate 0 sh))) \<le>
      sum_list (map (\<lambda>row. count_list row 1) sh)"
    by (intro length_concat_enumerate_le) simp
  then show ?thesis
    by (simp add: findOccupiedCells_def shape_area_def)
qed

text \<open>The resolver returns one reference per 1-cell of the shape exactly when every 1-cell
  lands on an id the board has: the full-coverage test of spec section 4.2.\<close>

lemma findOccupiedCells_complete_iff:
  "length (findOccupiedCells sh b a) = shape_area sh \<longleftrightarrow>
     (\<forall>(dr, dc) \<in> shape_cells sh. cell_ref_at b (rowIndex a + int dr) (colIndex a + int dc) \<noteq> None)"
proof -
  have len: "length (findOccupiedCells sh b a) =
      sum_list (map (\<lambda>p. length (cover_row b a (fst p) (snd p))) (enumerate 0 sh))"
    unfolding findOccupiedCells_def length_concat map_map
    by (intro arg_cong [where f = sum_list] map_cong refl) auto
  have area: "shape_area sh = sum_list (map (\<lambda>p. count_list (snd p) 1) (enumerate 0 sh))"
    unfolding shape_area_def by (induction sh rule: rev_induct) (simp_all add: enumerate_append_eq)
  have "length (findOccupiedCells sh b a) = shape_area sh \<longleftrightarrow>
      (\<forall>p \<in> set (enumerate 0 sh). length (cover_row b a (fst p) (snd p)) = count_list (snd p) 1)"
    unfolding len area by (rule sum_list_map_eq_iff) (rule length_cover_row_le)
  also have "\<dots> \<longleftrightarrow> (\<forall>r < length sh. \<forall>c < length (sh ! r). sh ! r ! c = 1 \<longrightarrow>
      cell_ref_at b (rowIndex a + int r) (colIndex a + int c) \<noteq> None)"
    unfolding ball_enumerate length_cover_row_eq by simp
  finally show ?thesis
    unfolding shape_cells_def by blast
qed

text \<open>C14: the resolver returns at most one reference per 1-cell of the shape, and strictly
  fewer exactly when some 1-cell of the shape falls on a position whose id the board does not
  have (off the grid, or past the right edge into a gap of the calendar).\<close>

theorem findOccupiedCells_length_le:
  "length (findOccupiedCells sh b a) \<le> shape_area sh \<and>
   (length (findOccupiedCells sh b a) < shape_area sh \<longleftrightarrow>
      (\<exists>(dr, dc) \<in> shape_cells sh. cell_ref_at b (rowIndex a + int dr) (colIndex a + int dc) = None))"
proof -
  have le: "length (findOccupiedCells sh b a) \<le> shape_area sh"
    by (rule length_findOccupiedCells_le)
  then have "length (findOccupiedCells sh b a) < shape_area sh \<longleftrightarrow>
      length (findOccupiedCells sh b a) \<noteq> shape_area sh"
    by linarith
  also have "\<dots> \<longleftrightarrow> (\<exists>(dr, dc) \<in> shape_cells sh.
      cell_ref_at b (rowIndex a + int dr) (colIndex a + int dc) = None)"
    unfolding findOccupiedCells_complete_iff by (simp add: split_def del: not_None_eq)
  finally show ?thesis
    using le by blast
qed

theorem findOccupiedCells_length_le_witness:
  "(0, 4) \<in> shape_cells [[1, 1, 1, 1, 1]] \<and>
   cell_ref_at demo_board (rowIndex (demo_board ! 0) + int 0) (colIndex (demo_board ! 0) + int 4) = None \<and>
   length (findOccupiedCells [[1, 1, 1, 1, 1]] demo_board (demo_board ! 0)) = 4 \<and>
   length (findOccupiedCells [[1, 1, 1, 1, 1]] demo_board (demo_board ! 0)) < shape_area [[1, 1, 1, 1, 1]]"
proof -
  have m: "(0, 4) \<in> shape_cells [[1, 1, 1, 1, 1]]"
    by (simp add: shape_cells_def)
  have n: "cell_ref_at demo_board (rowIndex (demo_board ! 0) + int 0) (colIndex (demo_board ! 0) + int 4) = None"
    by code_simp
  have l: "length (findOccupiedCells [[1, 1, 1, 1, 1]] demo_board (demo_board ! 0)) = 4"
    by code_simp
  have "length (findOccupiedCells [[1, 1, 1, 1, 1]] demo_board (demo_board ! 0)) < shape_area [[1, 1, 1, 1, 1]]"
    using findOccupiedCells_length_le [of "[[1, 1, 1, 1, 1]]" demo_board "demo_board ! 0"] m n by blast
  then show ?thesis
    using m n l by blast
qed

section \<open>On a well-formed board\<close>

lemma cell_ref_at_wf:
  "wf_board b \<Longrightarrow> cell_ref_at b r c = Some i \<longleftrightarrow> i < length b \<and> cell_id (b ! i) = grid_id r c"
  unfolding cell_ref_at_def by (rule find_idx_key_distinct [OF wf_board_distinct])

lemma findOccupiedCells_mem_wf:
  assumes "wf_board b"
  shows "i \<in> set (findOccupiedCells sh b a) \<longleftrightarrow> i < length b \<and>
     (\<exists>(dr, dc) \<in> shape_cells sh.
        cell_id (b ! i) = grid_id (rowIndex a + int dr) (colIndex a + int dc))"
  unfolding findOccupiedCells_mem cell_ref_at_wf [OF assms] by blast

text \<open>The id of a well-formed cell names its grid position, when the position asked for is
  inside the columns.\<close>

lemma wf_cell_grid_id_iff:
  assumes "wf_cell x" and "0 \<le> c" and "c < boardCols"
  shows "cell_id x = grid_id r c \<longleftrightarrow> rowIndex x = r \<and> colIndex x = c"
  using assms grid_id_inj [of "colIndex x" c "rowIndex x" r] by (auto simp: wf_cell_def)

lemma fits_rightD:
  assumes "fits_right sh c" and "(dr, dc) \<in> shape_cells sh"
  shows "c + int dc < boardCols"
proof -
  from assms(2) have r: "dr < length sh" and k: "dc < length (sh ! dr)" and v: "sh ! dr ! dc = 1"
    by (auto simp: shape_cells_def)
  from k have "(dc, sh ! dr ! dc) \<in> set (enumerate 0 (sh ! dr))"
    by (simp add: in_set_enumerate_eq)
  moreover from assms(1) r have
    "list_all (\<lambda>(dc, v). v \<noteq> 1 \<or> c + int dc < boardCols) (enumerate 0 (sh ! dr))"
    by (simp add: fits_right_def list_all_length)
  ultimately show ?thesis
    using v by (auto simp: list_all_iff)
qed

text \<open>Where the id arithmetic stops: one column past the right edge is the first column of
  the next row.\<close>

lemma grid_id_wrap:
  "grid_id r (c + boardCols) = grid_id (r + 1) c"
  by (simp add: grid_id_def algebra_simps)

lemma cover_geometry:
  assumes wf: "wf_board b" and a: "0 \<le> colIndex a" and fit: "fits_right sh (colIndex a)"
  shows "i \<in> set (findOccupiedCells sh b a) \<longleftrightarrow> i < length b \<and>
     (\<exists>(dr, dc) \<in> shape_cells sh.
        rowIndex (b ! i) = rowIndex a + int dr \<and> colIndex (b ! i) = colIndex a + int dc)"
proof -
  have key: "cell_id (b ! i) = grid_id (rowIndex a + int dr) (colIndex a + int dc) \<longleftrightarrow>
      rowIndex (b ! i) = rowIndex a + int dr \<and> colIndex (b ! i) = colIndex a + int dc"
    if "i < length b" and "(dr, dc) \<in> shape_cells sh" for dr dc
    using wf_board_nth [OF wf that(1)] a fits_rightD [OF fit that(2)]
    by (intro wf_cell_grid_id_iff) simp_all
  show ?thesis
    unfolding findOccupiedCells_mem_wf [OF wf]
    using key by blast
qed

text \<open>C3: the contract of spec section 4.1. On a well-formed board, with the anchor in
  the grid and a shape that does not cross the right edge, the resolver returns exactly the
  board cells at the anchor's position shifted by the offsets of the shape's 1-cells.\<close>

theorem findOccupiedCells_geometry:
  assumes wf: "wf_board b" and a: "0 \<le> colIndex a" and fit: "fits_right sh (colIndex a)"
  shows "i \<in> set (findOccupiedCells sh b a) \<longleftrightarrow> i < length b \<and>
     (\<exists>(dr, dc) \<in> shape_cells sh.
        rowIndex (b ! i) = rowIndex a + int dr \<and> colIndex (b ! i) = colIndex a + int dc)"
  using cover_geometry [OF wf a fit] .

theorem findOccupiedCells_geometry_witness:
  "wf_board demo_board \<and> 0 \<le> colIndex (demo_board ! 0) \<and>
   fits_right [[1, 1]] (colIndex (demo_board ! 0)) \<and>
   (1 \<in> set (findOccupiedCells [[1, 1]] demo_board (demo_board ! 0)) \<longleftrightarrow> 1 < length demo_board \<and>
     (\<exists>(dr, dc) \<in> shape_cells [[1, 1]].
        rowIndex (demo_board ! 1) = rowIndex (demo_board ! 0) + int dr \<and>
        colIndex (demo_board ! 1) = colIndex (demo_board ! 0) + int dc))"
proof -
  have h: "0 \<le> colIndex (demo_board ! 0)" "fits_right [[1, 1]] (colIndex (demo_board ! 0))"
    by (simp_all add: demo_board_def grid_cell_def fits_right_def boardCols_def)
  show ?thesis
    using wf_demo_board h findOccupiedCells_geometry [OF wf_demo_board h, of 1] by blast
qed

lemma cell_ref_at_pos:
  assumes wf: "wf_board b" and ref: "cell_ref_at b r c = Some i"
    and c: "0 \<le> c" "c < boardCols"
  shows "rowIndex (b ! i) = r \<and> colIndex (b ! i) = c"
proof -
  from ref have i: "i < length b" and id: "cell_id (b ! i) = grid_id r c"
    unfolding cell_ref_at_wf [OF wf] by simp_all
  show ?thesis
    using id wf_cell_grid_id_iff [OF wf_board_nth [OF wf i] c] by blast
qed

lemma distinct_cover_row:
  assumes wf: "wf_board b"
    and fit: "\<And>c. c < length row \<Longrightarrow> row ! c = 1 \<Longrightarrow>
                 0 \<le> colIndex a + int c \<and> colIndex a + int c < boardCols"
  shows "distinct (cover_row b a r row)"
  unfolding cover_row_def
proof (rule distinct_concat_enumerate, goal_cases)
  case (1 k)
  show ?case by (simp split: option.split)
next
  case (2 k k' x)
  have e: "row ! k = 1 \<and> cell_ref_at b (rowIndex a + int r) (colIndex a + int k) = Some x"
    using 2(3) by (simp only: prod.case add_0 mem_cover_entry)
  have e': "row ! k' = 1 \<and> cell_ref_at b (rowIndex a + int r) (colIndex a + int k') = Some x"
    using 2(4) by (simp only: prod.case add_0 mem_cover_entry)
  have "colIndex (b ! x) = colIndex a + int k"
    using cell_ref_at_pos [OF wf conjunct2 [OF e]] fit [OF 2(1) conjunct1 [OF e]] by simp
  moreover have "colIndex (b ! x) = colIndex a + int k'"
    using cell_ref_at_pos [OF wf conjunct2 [OF e']] fit [OF 2(2) conjunct1 [OF e']] by simp
  ultimately show ?case by simp
qed

text \<open>C10: what the id arithmetic does past the right edge (spec section 4.1 says such
  shape cells are omitted). A shape cell whose column lands \<open>boardCols + c\<close> columns
  right of the anchor is resolved to the cell in column \<open>c\<close> of the next row, when the
  board has one: the piece wraps around instead of hanging off the board.\<close>

theorem findOccupiedCells_wraps:
  assumes wf: "wf_board b" and i: "i < length b"
    and sc: "(dr, dc) \<in> shape_cells sh"
    and col: "colIndex a + int dc = boardCols + colIndex (b ! i)"
    and row: "rowIndex (b ! i) = rowIndex a + int dr + 1"
  shows "i \<in> set (findOccupiedCells sh b a)"
proof -
  have "cell_id (b ! i) = grid_id (rowIndex (b ! i)) (colIndex (b ! i))"
    using wf_board_nth [OF wf i] by (simp add: wf_cell_def)
  also have "\<dots> = grid_id (rowIndex a + int dr) (colIndex (b ! i) + boardCols)"
    using row by (simp add: grid_id_wrap)
  also have "\<dots> = grid_id (rowIndex a + int dr) (colIndex a + int dc)"
    using col by (simp add: add.commute)
  finally show ?thesis
    unfolding findOccupiedCells_mem_wf [OF wf] using i sc by blast
qed

theorem findOccupiedCells_wraps_witness:
  "wf_board demo_board \<and> 6 < length demo_board \<and> (0, 1) \<in> shape_cells [[1, 1]] \<and>
   colIndex (demo_board ! 5) + int 1 = boardCols + colIndex (demo_board ! 6) \<and>
   rowIndex (demo_board ! 6) = rowIndex (demo_board ! 5) + int 0 + 1 \<and>
   6 \<in> set (findOccupiedCells [[1, 1]] demo_board (demo_board ! 5))"
proof -
  have h: "6 < length demo_board" "(0, 1) \<in> shape_cells [[1, 1]]"
    "colIndex (demo_board ! 5) + int 1 = boardCols + colIndex (demo_board ! 6)"
    "rowIndex (demo_board ! 6) = rowIndex (demo_board ! 5) + int 0 + 1"
    by (simp_all add: demo_board_def grid_cell_def shape_cells_def boardCols_def)
  show ?thesis
    using wf_demo_board h findOccupiedCells_wraps [OF wf_demo_board h] by blast
qed

text \<open>C21: on a well-formed board, with the anchor in the grid and a shape that does not
  cross the right edge, the resolver returns every covered cell once: no reference is
  pushed twice, so \<open>placePiece\<close> and \<open>removePiece\<close> write each covered cell once
  and \<open>canPlay\<close> tests it once.\<close>

theorem findOccupiedCells_distinct:
  assumes wf: "wf_board b" and a: "0 \<le> colIndex a" and fit: "fits_right sh (colIndex a)"
  shows "distinct (findOccupiedCells sh b a)"
  unfolding findOccupiedCells_def
proof (rule distinct_concat_enumerate, goal_cases)
  case (1 k)
  have "distinct (cover_row b a k (sh ! k))"
  proof (rule distinct_cover_row [OF wf])
    fix c assume "c < length (sh ! k)" "sh ! k ! c = 1"
    with 1 have "(k, c) \<in> shape_cells sh" by (simp add: shape_cells_def)
    then show "0 \<le> colIndex a + int c \<and> colIndex a + int c < boardCols"
      using a fits_rightD [OF fit] by simp
  qed
  then show ?case by simp
next
  case (2 k k' x)
  have m: "x \<in> set (cover_row b a k (sh ! k))" "x \<in> set (cover_row b a k' (sh ! k'))"
    using 2(3,4) by simp_all
  have row: "rowIndex (b ! x) = rowIndex a + int r"
    if r: "r < length sh" and x: "x \<in> set (cover_row b a r (sh ! r))" for r
  proof -
    from x obtain c where c: "c < length (sh ! r)" "sh ! r ! c = 1"
      and ref: "cell_ref_at b (rowIndex a + int r) (colIndex a + int c) = Some x"
      unfolding mem_cover_row by blast
    from r c have "(r, c) \<in> shape_cells sh" by (simp add: shape_cells_def)
    then have "colIndex a + int c < boardCols"
      using fits_rightD [OF fit] by simp
    with a ref show ?thesis
      using cell_ref_at_pos [OF wf ref] by simp
  qed
  show ?case
    using row [OF 2(1) m(1)] row [OF 2(2) m(2)] by simp
qed

theorem findOccupiedCells_distinct_witness:
  "wf_board demo_board \<and> 0 \<le> colIndex (demo_board ! 0) \<and>
   fits_right [[1, 1], [1, 1]] (colIndex (demo_board ! 0)) \<and>
   distinct (findOccupiedCells [[1, 1], [1, 1]] demo_board (demo_board ! 0))"
proof -
  have h: "0 \<le> colIndex (demo_board ! 0)" "fits_right [[1, 1], [1, 1]] (colIndex (demo_board ! 0))"
    by (simp_all add: demo_board_def grid_cell_def fits_right_def boardCols_def)
  show ?thesis
    using wf_demo_board h findOccupiedCells_distinct [OF wf_demo_board h] by blast
qed

end
