(* ===== verification/Store.thy ===== *)
theory Store
  imports Coverage
begin

text \<open>
  The Pinia store \<open>useGameStore\<close> of \<open>src/src/stores/game.ts\<close> (lines 40--123): its
  state (two board snapshots), the getter, and the actions that read or change the board.
  Each action takes the state and returns the new one. The snapshots are values:
  \<open>JSON.parse(JSON.stringify(b))\<close> is a deep copy, so after \<open>setboardState\<close> and
  \<open>resetGame\<close> no mutation of one snapshot can reach the other, which a value model has
  for free (the copy drops nothing the engine reads). The mutation of cells through the
  references \<open>findOccupiedCells\<close> returns is \<open>for_each_ref\<close> of the prelude over the
  current snapshot. \<open>checkWinner\<close> is in theory \<open>Winner\<close>.
\<close>

section \<open>State and actions\<close>

record game_state =
  initBoardState :: board
  boardState :: board

text \<open>\<open>state: () => ({ initBoardState: [], boardState: [] })\<close> (lines 41--44).\<close>

definition init_state :: game_state where
  "init_state = \<lparr>initBoardState = [], boardState = []\<rparr>"

text \<open>Getter \<open>getboardState\<close> (line 47).\<close>

definition getboardState :: "game_state \<Rightarrow> board" where
  "getboardState s = boardState s"

text \<open>\<open>setboardState\<close> (lines 51--54): both snapshots become copies of the layout.\<close>

definition setboardState :: "game_state \<Rightarrow> board \<Rightarrow> game_state" where
  "setboardState s b = s\<lparr>initBoardState := b, boardState := b\<rparr>"

text \<open>\<open>boardState.find(cell => cell.id === startingCellId)\<close> (lines 57, 73).\<close>

definition find_anchor :: "board \<Rightarrow> int \<Rightarrow> nat option" where
  "find_anchor b startingCellId = find_idx (\<lambda>cell. cell_id cell = startingCellId) b"

text \<open>The test of line 64 that makes a covered cell refuse the piece.\<close>

definition blocks_piece :: "cell \<Rightarrow> bool" where
  "blocks_piece cell \<longleftrightarrow> isOccupied cell = True \<or> cell_type cell = ''blocked''"

text \<open>\<open>canPlay\<close> (lines 56--70): no anchor is \<open>false\<close>; otherwise the loop returns
  \<open>false\<close> at the first covered cell that blocks, and \<open>true\<close> after the last.\<close>

definition canPlay :: "game_state \<Rightarrow> piece \<Rightarrow> int \<Rightarrow> bool" where
  "canPlay s piece startingCellId =
     (case find_anchor (boardState s) startingCellId of
        None \<Rightarrow> False
      | Some anchor \<Rightarrow>
          list_all (\<lambda>cell. \<not> blocks_piece (boardState s ! cell))
            (findOccupiedCells (shape piece) (boardState s) (boardState s ! anchor)))"

text \<open>The two field writes of lines 79--80 and of lines 91--92.\<close>

definition occupy :: "int \<Rightarrow> cell \<Rightarrow> cell" where
  "occupy pid cell = cell\<lparr>isOccupied := True, pieceId := Some pid\<rparr>"

definition vacate :: "cell \<Rightarrow> cell" where
  "vacate cell = cell\<lparr>isOccupied := False, pieceId := None\<rparr>"

text \<open>\<open>placePiece\<close> (lines 72--82): unconditional; no anchor is a no-op.\<close>

definition placePiece :: "game_state \<Rightarrow> piece \<Rightarrow> int \<Rightarrow> game_state" where
  "placePiece s piece startingCellId =
     (case find_anchor (boardState s) startingCellId of
        None \<Rightarrow> s
      | Some anchor \<Rightarrow>
          s\<lparr>boardState := for_each_ref (occupy (piece_id piece))
             (findOccupiedCells (shape piece) (boardState s) (boardState s ! anchor))
             (boardState s)\<rparr>)"

text \<open>\<open>removePiece\<close> (lines 84--94). The anchor is looked up with
  \<open>cell.id === piece.anchorCell\<close>: an unset \<open>anchorCell\<close> is \<open>undefined\<close>, which
  equals no id, so the search fails and the action is a no-op.\<close>

definition removePiece :: "game_state \<Rightarrow> piece \<Rightarrow> game_state" where
  "removePiece s piece =
     (case find_idx (\<lambda>cell. Some (cell_id cell) = anchorCell piece) (boardState s) of
        None \<Rightarrow> s
      | Some anchor \<Rightarrow>
          s\<lparr>boardState := for_each_ref vacate
             (findOccupiedCells (shape piece) (boardState s) (boardState s ! anchor))
             (boardState s)\<rparr>)"

text \<open>\<open>resetGame\<close> (lines 120--122).\<close>

definition resetGame :: "game_state \<Rightarrow> game_state" where
  "resetGame s = s\<lparr>boardState := initBoardState s\<rparr>"

section \<open>Basic facts about the cell writes\<close>

lemma occupy_idem [simp]: "occupy pid (occupy pid c) = occupy pid c"
  by (simp add: occupy_def)

lemma vacate_idem [simp]: "vacate (vacate c) = vacate c"
  by (simp add: vacate_def)

lemma cell_layout_occupy [simp]: "cell_layout (occupy pid c) = cell_layout c"
  by (simp add: occupy_def cell_layout_def)

lemma cell_layout_vacate [simp]: "cell_layout (vacate c) = cell_layout c"
  by (simp add: vacate_def cell_layout_def)

lemma cell_id_occupy [simp]: "cell_id (occupy pid c) = cell_id c"
  by (simp add: occupy_def)

lemma cell_id_vacate [simp]: "cell_id (vacate c) = cell_id c"
  by (simp add: vacate_def)

lemma cell_consistent_occupy: "cell_consistent (occupy pid c)"
  by (simp add: occupy_def cell_consistent_def)

lemma cell_consistent_vacate: "cell_consistent (vacate c)"
  by (simp add: vacate_def cell_consistent_def)

lemma vacate_occupy:
  "\<not> isOccupied c \<Longrightarrow> pieceId c = None \<Longrightarrow> vacate (occupy pid c) = c"
  by (simp add: vacate_def occupy_def)

text \<open>Erasing the occupancy fields forgets an \<open>occupy\<close>: the two writes touch nothing
  else of a cell.\<close>

lemma vacate_after_occupy: "vacate (occupy pid c) = vacate c"
  by (simp add: vacate_def occupy_def)

lemma vacate_free: "\<not> isOccupied c \<Longrightarrow> pieceId c = None \<Longrightarrow> vacate c = c"
  by (simp add: vacate_def)

lemma frame_for_each_ref_occupy [ref_update_simps]:
  "map vacate (for_each_ref (occupy pid) refs b) = map vacate b"
  by (rule map_for_each_ref) (rule vacate_after_occupy)

lemma frame_for_each_ref_vacate [ref_update_simps]:
  "map vacate (for_each_ref vacate refs b) = map vacate b"
  by (rule map_for_each_ref) simp

lemma layout_for_each_ref_occupy [ref_update_simps]:
  "map cell_layout (for_each_ref (occupy pid) refs b) = map cell_layout b"
  by (rule map_for_each_ref) simp

lemma layout_for_each_ref_vacate [ref_update_simps]:
  "map cell_layout (for_each_ref vacate refs b) = map cell_layout b"
  by (rule map_for_each_ref) simp

lemma ids_for_each_ref_occupy [ref_update_simps]:
  "map cell_id (for_each_ref (occupy pid) refs b) = map cell_id b"
  by (rule map_for_each_ref) simp

lemma consistent_for_each_ref:
  assumes "board_consistent b" and "\<And>c. cell_consistent (f c)"
    and "\<And>c. f (f c) = f c" and "\<forall>i \<in> set refs. i < length b"
  shows "board_consistent (for_each_ref f refs b)"
  using assms by (auto simp: board_consistent_def list_all_length length_for_each_ref
                             nth_for_each_ref)

lemma find_anchor_less: "find_anchor b k = Some a \<Longrightarrow> a < length b"
  by (simp add: find_anchor_def find_idx_less)

lemma findOccupiedCells_refs_less:
  "\<forall>i \<in> set (findOccupiedCells sh b a). i < length b"
  by (blast dest: findOccupiedCells_less)

lemma cover_anchor_wf:
  assumes "wf_board b" and "a < length b"
    and "sh \<noteq> []" and "sh ! 0 \<noteq> []" and "sh ! 0 ! 0 = 1"
  shows "a \<in> set (findOccupiedCells sh b (b ! a))"
proof -
  have h0: "(0, 0) \<in> shape_cells sh"
    using assms(3-5) by (simp add: shape_cells_def)
  have hid: "cell_id (b ! a) = grid_id (rowIndex (b ! a)) (colIndex (b ! a))"
    using wf_board_nth [OF assms(1,2)] by (simp add: wf_cell_def)
  show ?thesis
    unfolding findOccupiedCells_mem_wf [OF assms(1)]
    by (intro conjI bexI [OF _ h0]) (simp_all add: assms(2) hid)
qed

section \<open>The actions, functionally\<close>

text \<open>C4: \<open>placePiece\<close> cell by cell. When the anchor id names a cell, the board keeps its
  length and a cell becomes occupied by the piece (\<open>isOccupied = true\<close>,
  \<open>pieceId = piece.id\<close>, every other field kept) exactly when the \<open>find\<close> of line 32
  returns it for some 1-cell of the shape shifted to the anchor; every other cell is
  unchanged, and the initial snapshot is never written.\<close>

theorem placePiece_cells:
  assumes anchor: "find_anchor (boardState s) sid = Some a"
    and i: "i < length (boardState s)"
  shows "length (boardState (placePiece s p sid)) = length (boardState s) \<and>
    boardState (placePiece s p sid) ! i =
      (if \<exists>(dr, dc) \<in> shape_cells (shape p). cell_ref_at (boardState s)
            (rowIndex (boardState s ! a) + int dr) (colIndex (boardState s ! a) + int dc) = Some i
       then (boardState s ! i)\<lparr>isOccupied := True, pieceId := Some (piece_id p)\<rparr>
       else boardState s ! i) \<and>
    initBoardState (placePiece s p sid) = initBoardState s"
  using i by (simp add: placePiece_def anchor for_each_ref_eq_mark_refs findOccupiedCells_refs_less
      nth_mark_refs findOccupiedCells_mem occupy_def)

text \<open>C5: \<open>removePiece\<close> cell by cell. When \<open>anchorCell\<close> names a cell, every cell the
  resolver returns for the shape at that anchor is made free (\<open>isOccupied = false\<close>,
  \<open>pieceId = undefined\<close>) whichever piece it held, and every other cell is unchanged.\<close>

theorem removePiece_cells:
  assumes anchor: "find_idx (\<lambda>cell. Some (cell_id cell) = anchorCell p) (boardState s) = Some a"
    and i: "i < length (boardState s)"
  shows "length (boardState (removePiece s p)) = length (boardState s) \<and>
    boardState (removePiece s p) ! i =
      (if \<exists>(dr, dc) \<in> shape_cells (shape p). cell_ref_at (boardState s)
            (rowIndex (boardState s ! a) + int dr) (colIndex (boardState s ! a) + int dc) = Some i
       then (boardState s ! i)\<lparr>isOccupied := False, pieceId := None\<rparr>
       else boardState s ! i) \<and>
    initBoardState (removePiece s p) = initBoardState s"
  using i by (simp add: removePiece_def anchor for_each_ref_eq_mark_refs findOccupiedCells_refs_less
      nth_mark_refs findOccupiedCells_mem vacate_def)

theorem placePiece_cells_witness:
  "find_anchor demo_board 1 = Some 0 \<and> 1 < length demo_board \<and>
   boardState (placePiece \<lparr>initBoardState = demo_board, boardState = demo_board\<rparr>
       \<lparr>piece_id = 7, shape = [[1, 1]], anchorCell = None\<rparr> 1) ! 1 =
     (demo_board ! 1)\<lparr>isOccupied := True, pieceId := Some 7\<rparr>"
proof -
  let ?s = "\<lparr>initBoardState = demo_board, boardState = demo_board\<rparr>"
  let ?p = "\<lparr>piece_id = 7, shape = [[1, 1]], anchorCell = None\<rparr>"
  have h: "find_anchor (boardState ?s) 1 = Some 0" "1 < length (boardState ?s)"
    by code_simp+
  have c: "(0, 1) \<in> shape_cells (shape ?p)"
    by (simp add: shape_cells_def)
  have r: "cell_ref_at (boardState ?s) (rowIndex (boardState ?s ! 0) + int 0)
      (colIndex (boardState ?s ! 0) + int 1) = Some 1"
    by code_simp
  show ?thesis
    using h placePiece_cells [OF h, of ?p] c r by auto
qed

theorem removePiece_cells_witness:
  "find_idx (\<lambda>cell. Some (cell_id cell) = Some 1) demo_board = Some 0 \<and> 1 < length demo_board \<and>
   boardState (removePiece \<lparr>initBoardState = demo_board, boardState = demo_board\<rparr>
       \<lparr>piece_id = 7, shape = [[1, 1]], anchorCell = Some 1\<rparr>) ! 1 =
     (demo_board ! 1)\<lparr>isOccupied := False, pieceId := None\<rparr>"
proof -
  let ?s = "\<lparr>initBoardState = demo_board, boardState = demo_board\<rparr>"
  let ?p = "\<lparr>piece_id = 7, shape = [[1, 1]], anchorCell = Some 1\<rparr>"
  have h: "find_idx (\<lambda>cell. Some (cell_id cell) = anchorCell ?p) (boardState ?s) = Some 0"
    "1 < length (boardState ?s)"
    by code_simp+
  have c: "(0, 1) \<in> shape_cells (shape ?p)"
    by (simp add: shape_cells_def)
  have r: "cell_ref_at (boardState ?s) (rowIndex (boardState ?s ! 0) + int 0)
      (colIndex (boardState ?s ! 0) + int 1) = Some 1"
    by code_simp
  show ?thesis
    using h removePiece_cells [OF h] c r by auto
qed

section \<open>Placement legality\<close>

text \<open>C6: on a well-formed board, with a shape that stays inside the columns, \<open>canPlay\<close>
  holds exactly when the anchor exists and every board cell at a position the shape
  covers is free and not blocked.\<close>

theorem canPlay_geometry:
  assumes wf: "wf_board (boardState s)"
    and anchor: "find_anchor (boardState s) sid = Some a"
    and fit: "fits_right (shape p) (colIndex (boardState s ! a))"
  shows "canPlay s p sid \<longleftrightarrow>
    (\<forall>i < length (boardState s).
       (\<exists>(dr, dc) \<in> shape_cells (shape p).
          rowIndex (boardState s ! i) = rowIndex (boardState s ! a) + int dr \<and>
          colIndex (boardState s ! i) = colIndex (boardState s ! a) + int dc)
       \<longrightarrow> \<not> isOccupied (boardState s ! i) \<and> cell_type (boardState s ! i) \<noteq> ''blocked'')"
proof -
  let ?b = "boardState s"
  have "0 \<le> colIndex (?b ! a)"
    using wf_board_nth [OF wf find_anchor_less [OF anchor]] by (simp add: wf_cell_def)
  note geo = cover_geometry [OF wf this fit]
  show ?thesis
    unfolding canPlay_def anchor list_all_iff blocks_piece_def
    using geo by auto
qed

text \<open>C7: spec scenarios B and C. On a well-formed board, a piece whose shape has its
  origin cell set can never be played on an anchor that is occupied or blocked.\<close>

theorem canPlay_anchor_blocked:
  assumes wf: "wf_board (boardState s)"
    and anchor: "find_anchor (boardState s) sid = Some a"
    and origin: "shape p \<noteq> []" "shape p ! 0 \<noteq> []" "shape p ! 0 ! 0 = 1"
    and blocks: "blocks_piece (boardState s ! a)"
  shows "\<not> canPlay s p sid"
proof -
  have "a \<in> set (findOccupiedCells (shape p) (boardState s) (boardState s ! a))"
    using cover_anchor_wf [OF wf find_anchor_less [OF anchor] origin] .
  with blocks show ?thesis
    by (auto simp: canPlay_def anchor list_all_iff)
qed

theorem canPlay_geometry_witness:
  "wf_board (boardState \<lparr>initBoardState = demo_board, boardState = demo_board\<rparr>) \<and>
   find_anchor (boardState \<lparr>initBoardState = demo_board, boardState = demo_board\<rparr>) 1 = Some 0 \<and>
   fits_right (shape \<lparr>piece_id = 7, shape = [[1, 1]], anchorCell = None\<rparr>)
     (colIndex (boardState \<lparr>initBoardState = demo_board, boardState = demo_board\<rparr> ! 0)) \<and>
   canPlay \<lparr>initBoardState = demo_board, boardState = demo_board\<rparr>
     \<lparr>piece_id = 7, shape = [[1, 1]], anchorCell = None\<rparr> 1"
proof -
  let ?s = "\<lparr>initBoardState = demo_board, boardState = demo_board\<rparr>"
  let ?p = "\<lparr>piece_id = 7, shape = [[1, 1]], anchorCell = None\<rparr>"
  have h: "wf_board (boardState ?s)" "find_anchor (boardState ?s) 1 = Some 0"
    "fits_right (shape ?p) (colIndex (boardState ?s ! 0))"
    using wf_demo_board by (simp, code_simp, code_simp)
  have free: "\<forall>i < length (boardState ?s).
       (\<exists>(dr, dc) \<in> shape_cells (shape ?p).
          rowIndex (boardState ?s ! i) = rowIndex (boardState ?s ! 0) + int dr \<and>
          colIndex (boardState ?s ! i) = colIndex (boardState ?s ! 0) + int dc)
       \<longrightarrow> \<not> isOccupied (boardState ?s ! i) \<and> cell_type (boardState ?s ! i) \<noteq> ''blocked''"
    by (auto simp: demo_board_def grid_cell_def shape_cells_def less_Suc_eq nth_Cons')
  show ?thesis
    using h free canPlay_geometry [OF h] by blast
qed

theorem canPlay_anchor_blocked_witness:
  "wf_board (boardState \<lparr>initBoardState = demo_board, boardState = demo_board\<rparr>) \<and>
   find_anchor (boardState \<lparr>initBoardState = demo_board, boardState = demo_board\<rparr>) 4 = Some 3 \<and>
   blocks_piece (boardState \<lparr>initBoardState = demo_board, boardState = demo_board\<rparr> ! 3) \<and>
   \<not> canPlay \<lparr>initBoardState = demo_board, boardState = demo_board\<rparr>
       \<lparr>piece_id = 8, shape = [[1]], anchorCell = None\<rparr> 4"
proof -
  let ?s = "\<lparr>initBoardState = demo_board, boardState = demo_board\<rparr>"
  let ?p = "\<lparr>piece_id = 8, shape = [[1]], anchorCell = None\<rparr>"
  have h: "wf_board (boardState ?s)" "find_anchor (boardState ?s) 4 = Some 3"
    using wf_demo_board by (simp, code_simp)
  have o: "shape ?p \<noteq> []" "shape ?p ! 0 \<noteq> []" "shape ?p ! 0 ! 0 = 1"
    by simp_all
  have b: "blocks_piece (boardState ?s ! 3)"
    by code_simp
  show ?thesis
    using h b canPlay_anchor_blocked [OF h o b] by blast
qed

text \<open>The anchor itself is covered only through the shape's origin entry.\<close>

lemma anchor_not_covered:
  assumes wf: "wf_board b" and a: "a < length b"
    and fit: "fits_right sh (colIndex (b ! a))" and origin: "(0, 0) \<notin> shape_cells sh"
  shows "a \<notin> set (findOccupiedCells sh b (b ! a))"
proof -
  have c0: "0 \<le> colIndex (b ! a)"
    using wf_board_nth [OF wf a] by (simp add: wf_cell_def)
  show ?thesis
    unfolding cover_geometry [OF wf c0 fit] using origin by auto
qed

text \<open>Occupying one cell leaves the anchor lookup and the resolver as they were: both read
  only the ids and positions.\<close>

lemma occupy_keeps_lookup:
  assumes a: "a < length b"
  shows "find_anchor (b[a := occupy pid (b ! a)]) k = find_anchor b k"
    and "findOccupiedCells sh (b[a := occupy pid (b ! a)]) (b[a := occupy pid (b ! a)] ! a) =
         findOccupiedCells sh b (b ! a)"
proof -
  have ids: "map cell_id (b[a := occupy pid (b ! a)]) = map cell_id b"
    using a by (simp add: map_update) (metis list_update_id nth_map)
  show "find_anchor (b[a := occupy pid (b ! a)]) k = find_anchor b k"
    unfolding find_anchor_def using ids by (rule find_idx_cong_map)
  show "findOccupiedCells sh (b[a := occupy pid (b ! a)]) (b[a := occupy pid (b ! a)] ! a) =
      findOccupiedCells sh b (b ! a)"
    using ids a by (intro findOccupiedCells_cong) (simp_all add: occupy_def)
qed

text \<open>C12: \<open>canPlay\<close> never looks at the anchor cell itself (spec scenario B asks for
  false on an occupied anchor). On a well-formed board, for a shape inside the columns whose
  origin entry is not 1, occupying the anchor cell with any piece leaves the verdict of
  \<open>canPlay\<close> unchanged, so such a shape is playable on an occupied anchor whenever it is
  playable on a free one.\<close>

theorem canPlay_ignores_anchor:
  assumes wf: "wf_board (boardState s)"
    and anchor: "find_anchor (boardState s) sid = Some a"
    and fit: "fits_right (shape p) (colIndex (boardState s ! a))"
    and origin: "(0, 0) \<notin> shape_cells (shape p)"
  shows "canPlay (s\<lparr>boardState := (boardState s)[a := occupy pid (boardState s ! a)]\<rparr>) p sid =
    canPlay s p sid"
proof -
  let ?b = "boardState s"
  have a: "a < length ?b"
    using anchor by (rule find_anchor_less)
  note lk = occupy_keeps_lookup [OF a, where pid = pid]
  have out: "a \<notin> set (findOccupiedCells (shape p) ?b (?b ! a))"
    using anchor_not_covered [OF wf a fit origin] .
  have "list_all (\<lambda>c. \<not> blocks_piece (?b[a := occupy pid (?b ! a)] ! c))
        (findOccupiedCells (shape p) ?b (?b ! a)) =
      list_all (\<lambda>c. \<not> blocks_piece (?b ! c)) (findOccupiedCells (shape p) ?b (?b ! a))"
    using out by (intro list_all_cong refl) (metis nth_list_update_neq)
  then show ?thesis
    by (simp add: canPlay_def lk anchor)
qed

theorem canPlay_ignores_anchor_witness:
  "wf_board demo_board \<and> find_anchor demo_board 1 = Some 0 \<and>
   fits_right [[0, 1]] (colIndex (demo_board ! 0)) \<and> (0, 0) \<notin> shape_cells [[0, 1]] \<and>
   isOccupied (demo_board[0 := occupy 9 (demo_board ! 0)] ! 0) \<and>
   canPlay \<lparr>initBoardState = demo_board, boardState = demo_board[0 := occupy 9 (demo_board ! 0)]\<rparr>
     \<lparr>piece_id = 7, shape = [[0, 1]], anchorCell = None\<rparr> 1"
proof -
  let ?s = "\<lparr>initBoardState = demo_board, boardState = demo_board\<rparr>"
  let ?p = "\<lparr>piece_id = 7, shape = [[0, 1]], anchorCell = None\<rparr>"
  have h: "wf_board (boardState ?s)" "find_anchor (boardState ?s) 1 = Some 0"
    "fits_right (shape ?p) (colIndex (boardState ?s ! 0))" "(0, 0) \<notin> shape_cells (shape ?p)"
    using wf_demo_board by (simp, code_simp, code_simp, simp add: shape_cells_def)
  have free: "canPlay ?s ?p 1"
    by code_simp
  have occ: "isOccupied (demo_board[0 := occupy 9 (demo_board ! 0)] ! 0)"
    by (simp add: demo_board_def occupy_def)
  show ?thesis
    using h free occ canPlay_ignores_anchor [OF h, of 9] by simp
qed

section \<open>Error paths\<close>

text \<open>C15: spec scenario E. \<open>removePiece\<close> on a piece whose \<open>anchorCell\<close> was never
  set leaves the store unchanged (the lookup compares every id with \<open>undefined\<close>).\<close>

theorem removePiece_unplaced:
  "anchorCell p = None \<Longrightarrow> removePiece s p = s"
  by (simp add: removePiece_def)

theorem removePiece_unplaced_witness:
  "anchorCell \<lparr>piece_id = 7, shape = [[1, 1]], anchorCell = None\<rparr> = None \<and>
   removePiece \<lparr>initBoardState = demo_board, boardState = demo_board\<rparr>
     \<lparr>piece_id = 7, shape = [[1, 1]], anchorCell = None\<rparr> =
   \<lparr>initBoardState = demo_board, boardState = demo_board\<rparr>"
proof -
  have h: "anchorCell \<lparr>piece_id = 7, shape = [[1, 1]], anchorCell = None\<rparr> = None" by simp
  show ?thesis using h removePiece_unplaced [OF h] by blast
qed

text \<open>C16: spec section 7. An anchor id that names no cell makes \<open>canPlay\<close> false and
  \<open>placePiece\<close> a no-op.\<close>

theorem missing_anchor_no_effect:
  "find_anchor (boardState s) sid = None \<Longrightarrow> \<not> canPlay s p sid \<and> placePiece s p sid = s"
  by (simp add: canPlay_def placePiece_def)

theorem missing_anchor_no_effect_witness:
  "find_anchor demo_board 5 = None \<and>
   \<not> canPlay \<lparr>initBoardState = demo_board, boardState = demo_board\<rparr>
       \<lparr>piece_id = 7, shape = [[1, 1]], anchorCell = None\<rparr> 5"
proof -
  have h: "find_anchor (boardState \<lparr>initBoardState = demo_board, boardState = demo_board\<rparr>) 5 = None"
    by code_simp
  show ?thesis using h missing_anchor_no_effect [OF h] by simp
qed

end
