(* ===== verification/Winner.thy ===== *)
theory Winner
  imports Store
begin

text \<open>
  The win evaluator \<open>checkWinner\<close> of \<open>src/src/stores/game.ts\<close> (lines 96--118). The
  \<open>Date\<close> object is modelled by what the code reads of it: \<open>getDay()\<close>,
  \<open>getMonth()\<close> and \<open>getDate()\<close> of a valid date, or \<open>NaN\<close> for all three when the
  string does not parse. Indexing the name tables is JavaScript indexing (\<open>undefined\<close>
  out of range); \<open>date.toString()\<close> is the decimal numeral without leading zeros. How
  the \<open>Date\<close> constructor and the getters produce the three numbers from the argument is
  theory \<open>JsDate\<close>.
\<close>

section \<open>Definitions\<close>

datatype js_date =
    Invalid_Date
  | Calendar_Date (getDay: int) (getMonth: int) (getDate: int)

definition dayName :: "string list" where
  "dayName = [''SUN'', ''MON'', ''TUE'', ''WED'', ''THU'', ''FRI'', ''SAT'']"

definition monthName :: "string list" where
  "monthName = [''JAN'', ''FEB'', ''MAR'', ''APR'', ''MAY'', ''JUN'', ''JUL'', ''AUG'',
                ''SEP'', ''OCT'', ''NOV'', ''DEC'']"

text \<open>\<open>Number.prototype.toString()\<close> on an integer.\<close>

fun nat_to_string :: "nat \<Rightarrow> string" where
  "nat_to_string n =
     (if n < 10 then [char_of (48 + n)]
      else nat_to_string (n div 10) @ [char_of (48 + n mod 10)])"

definition int_to_string :: "int \<Rightarrow> string" where
  "int_to_string i =
     (if i < 0 then CHR ''-'' # nat_to_string (nat (- i)) else nat_to_string (nat i))"

text \<open>\<open>dayName[day]\<close>, \<open>monthName[month]\<close> and \<open>date.toString()\<close>, for a valid and
  for an invalid date.\<close>

definition date_parts :: "js_date \<Rightarrow> string option \<times> string option \<times> string" where
  "date_parts dt = (case dt of
       Invalid_Date \<Rightarrow> (None, None, ''NaN'')
     | Calendar_Date day month date \<Rightarrow>
         (js_at dayName day, js_at monthName month, int_to_string date))"

text \<open>The filter of line 104.\<close>

definition unOccupiedCells :: "board \<Rightarrow> board" where
  "unOccupiedCells b = filter (\<lambda>cell. isOccupied cell = False \<and> cell_type cell \<noteq> ''blocked'') b"

text \<open>Lines 105--117: the three \<open>find\<close>s among the free cells, the truthiness test of
  their values, and the comparison with the date.\<close>

definition checkWinner :: "game_state \<Rightarrow> js_date \<Rightarrow> bool" where
  "checkWinner s dt =
     (let (dayN, monthN, dateS) = date_parts dt;
          free = unOccupiedCells (boardState s)
      in if 2 < length free then
           (case (find (\<lambda>cell. cell_type cell = ''day'') free,
                  find (\<lambda>cell. cell_type cell = ''month'') free,
                  find (\<lambda>cell. cell_type cell = ''date'') free) of
              (Some selectedDay, Some selectedMonth, Some selectedDate) \<Rightarrow>
                cell_value selectedDay \<noteq> [] \<and> cell_value selectedMonth \<noteq> [] \<and>
                cell_value selectedDate \<noteq> [] \<and>
                Some (cell_value selectedDay) = dayN \<and>
                Some (cell_value selectedMonth) = monthN \<and>
                cell_value selectedDate = dateS
            | _ \<Rightarrow> False)
         else False)"

text \<open>The solved state of the spec's glossary, as a specification: the free non-blocked
  cells are exactly three, a day cell labelled with the weekday, a month cell labelled
  with the month and a date cell labelled with the day of the month.\<close>

definition solved_demo_state :: game_state where
  "solved_demo_state = \<lparr>initBoardState = demo_board, boardState = demo_board[4 := occupy 1 (demo_board ! 4),
      5 := occupy 1 (demo_board ! 5), 6 := occupy 2 (demo_board ! 6), 7 := occupy 2 (demo_board ! 7)]\<rparr>"

definition solved_exact :: "board \<Rightarrow> js_date \<Rightarrow> bool" where
  "solved_exact b dt =
     (case date_parts dt of
        (Some dayN, Some monthN, dateS) \<Rightarrow>
          length (unOccupiedCells b) = 3 \<and>
          map cell_value (filter (\<lambda>c. cell_type c = ''day'') (unOccupiedCells b)) = [dayN] \<and>
          map cell_value (filter (\<lambda>c. cell_type c = ''month'') (unOccupiedCells b)) = [monthN] \<and>
          map cell_value (filter (\<lambda>c. cell_type c = ''date'') (unOccupiedCells b)) = [dateS]
      | _ \<Rightarrow> False)"

declare nat_to_string.simps [simp del]

section \<open>What a win means\<close>

lemma find_conv_filter:
  "find P xs = (case filter P xs of [] \<Rightarrow> None | y # _ \<Rightarrow> Some y)"
  by (induction xs) auto

lemma length_filter_disjoint3:
  assumes "\<And>x. \<not> (P x \<and> Q x)" "\<And>x. \<not> (P x \<and> R x)" "\<And>x. \<not> (Q x \<and> R x)"
  shows "length (filter P xs) + length (filter Q xs) + length (filter R xs) \<le> length xs"
  using assms by (induction xs) auto

lemma dayName_nonempty: "js_at dayName d = Some v \<Longrightarrow> v \<noteq> []"
  by (auto simp: js_at_def dayName_def nth_Cons' split: if_splits)

lemma monthName_nonempty: "js_at monthName m = Some v \<Longrightarrow> v \<noteq> []"
  by (auto simp: js_at_def monthName_def nth_Cons' split: if_splits)

lemma nat_to_string_ne: "nat_to_string n \<noteq> []"
  by (subst nat_to_string.simps) simp

lemma int_to_string_nonempty: "int_to_string i \<noteq> []"
  by (simp add: int_to_string_def nat_to_string_ne)

text \<open>What a yes of \<open>checkWinner\<close> consists of: a valid date, more than two free
  cells, and the three \<open>find\<close>s returning cells whose labels match the date.\<close>

lemma checkWinner_finds:
  assumes "checkWinner s dt"
  shows "\<exists>day month date cd cm ct. dt = Calendar_Date day month date \<and>
     2 < length (unOccupiedCells (boardState s)) \<and>
     find (\<lambda>c. cell_type c = ''day'') (unOccupiedCells (boardState s)) = Some cd \<and>
     find (\<lambda>c. cell_type c = ''month'') (unOccupiedCells (boardState s)) = Some cm \<and>
     find (\<lambda>c. cell_type c = ''date'') (unOccupiedCells (boardState s)) = Some ct \<and>
     js_at dayName day = Some (cell_value cd) \<and> js_at monthName month = Some (cell_value cm) \<and>
     cell_value ct = int_to_string date"
proof -
  let ?free = "unOccupiedCells (boardState s)"
  obtain x y z where dp: "date_parts dt = (x, y, z)"
    by (cases "date_parts dt") auto
  have unfold: "checkWinner s dt \<longleftrightarrow> 2 < length ?free \<and>
      (case (find (\<lambda>c. cell_type c = ''day'') ?free, find (\<lambda>c. cell_type c = ''month'') ?free,
             find (\<lambda>c. cell_type c = ''date'') ?free) of
         (Some cd, Some cm, Some ct) \<Rightarrow>
           cell_value cd \<noteq> [] \<and> cell_value cm \<noteq> [] \<and> cell_value ct \<noteq> [] \<and>
           Some (cell_value cd) = x \<and> Some (cell_value cm) = y \<and> cell_value ct = z
       | _ \<Rightarrow> False)"
    by (simp add: checkWinner_def dp Let_def)
  from assms obtain cd where fd: "find (\<lambda>c. cell_type c = ''day'') ?free = Some cd"
    unfolding unfold by (cases "find (\<lambda>c. cell_type c = ''day'') ?free") auto
  from assms fd obtain cm where fm: "find (\<lambda>c. cell_type c = ''month'') ?free = Some cm"
    unfolding unfold by (cases "find (\<lambda>c. cell_type c = ''month'') ?free") auto
  from assms fd fm obtain ct where ft: "find (\<lambda>c. cell_type c = ''date'') ?free = Some ct"
    unfolding unfold by (cases "find (\<lambda>c. cell_type c = ''date'') ?free") auto
  from assms fd fm ft have len: "2 < length ?free"
    and parts: "Some (cell_value cd) = x" "Some (cell_value cm) = y" "cell_value ct = z"
    unfolding unfold by simp_all
  from parts(1) obtain day month date where dt: "dt = Calendar_Date day month date"
    using dp by (cases dt) (auto simp: date_parts_def)
  have vals: "js_at dayName day = Some (cell_value cd)" "js_at monthName month = Some (cell_value cm)"
      "cell_value ct = int_to_string date"
    using dt dp parts by (simp_all add: date_parts_def)
  show ?thesis
    using dt len fd fm ft vals by blast
qed

text \<open>C8: soundness of the win check. When \<open>checkWinner\<close> says yes, the date was valid,
  more than two cells are free, and among the free non-blocked cells there is a day cell
  with the weekday's name, a month cell with the month's name and a date cell with the
  day of the month in decimal.\<close>

theorem checkWinner_sound:
  assumes "checkWinner s dt"
  shows "\<exists>day month date. dt = Calendar_Date day month date \<and>
     2 < length (unOccupiedCells (boardState s)) \<and>
     (\<exists>c \<in> set (unOccupiedCells (boardState s)).
        cell_type c = ''day'' \<and> js_at dayName day = Some (cell_value c)) \<and>
     (\<exists>c \<in> set (unOccupiedCells (boardState s)).
        cell_type c = ''month'' \<and> js_at monthName month = Some (cell_value c)) \<and>
     (\<exists>c \<in> set (unOccupiedCells (boardState s)).
        cell_type c = ''date'' \<and> cell_value c = int_to_string date)"
proof -
  from checkWinner_finds [OF assms] obtain day month date cd cm ct
    where dt: "dt = Calendar_Date day month date" and len: "2 < length (unOccupiedCells (boardState s))"
      and fd: "find (\<lambda>c. cell_type c = ''day'') (unOccupiedCells (boardState s)) = Some cd"
      and fm: "find (\<lambda>c. cell_type c = ''month'') (unOccupiedCells (boardState s)) = Some cm"
      and ft: "find (\<lambda>c. cell_type c = ''date'') (unOccupiedCells (boardState s)) = Some ct"
      and vals: "js_at dayName day = Some (cell_value cd)" "js_at monthName month = Some (cell_value cm)"
        "cell_value ct = int_to_string date"
    by blast
  show ?thesis
    using dt len fd fm ft vals unfolding find_Some_iff by (metis nth_mem)
qed

lemma checkWinner_unique_cells:
  assumes day: "filter (\<lambda>c. cell_type c = ''day'') (unOccupiedCells (boardState s)) = [cd]"
    and month: "filter (\<lambda>c. cell_type c = ''month'') (unOccupiedCells (boardState s)) = [cm]"
    and date: "filter (\<lambda>c. cell_type c = ''date'') (unOccupiedCells (boardState s)) = [ct]"
    and vd: "js_at dayName d = Some (cell_value cd)"
    and vm: "js_at monthName m = Some (cell_value cm)"
    and vt: "cell_value ct = int_to_string dd"
  shows "checkWinner s (Calendar_Date d m dd)"
proof -
  let ?free = "unOccupiedCells (boardState s)"
  have "length (filter (\<lambda>c. cell_type c = ''day'') ?free) +
        length (filter (\<lambda>c. cell_type c = ''month'') ?free) +
        length (filter (\<lambda>c. cell_type c = ''date'') ?free) \<le> length ?free"
    by (rule length_filter_disjoint3) auto
  with day month date have "2 < length ?free" by simp
  moreover have "cell_value cd \<noteq> []" "cell_value cm \<noteq> []" "cell_value ct \<noteq> []"
    using dayName_nonempty [OF vd] monthName_nonempty [OF vm] vt int_to_string_nonempty
    by simp_all
  ultimately show ?thesis
    using day month date vd vm vt
    by (simp add: checkWinner_def date_parts_def find_conv_filter)
qed

text \<open>C9: completeness of the win check for the intended final position. If the free
  non-blocked cells hold exactly one day cell, one month cell and one date cell, and their
  labels are the date's weekday, month and day of the month, \<open>checkWinner\<close> says yes.\<close>

theorem checkWinner_complete:
  assumes day: "filter (\<lambda>c. cell_type c = ''day'') (unOccupiedCells (boardState s)) = [cd]"
    and month: "filter (\<lambda>c. cell_type c = ''month'') (unOccupiedCells (boardState s)) = [cm]"
    and date: "filter (\<lambda>c. cell_type c = ''date'') (unOccupiedCells (boardState s)) = [ct]"
    and vd: "js_at dayName d = Some (cell_value cd)"
    and vm: "js_at monthName m = Some (cell_value cm)"
    and vt: "cell_value ct = int_to_string dd"
  shows "checkWinner s (Calendar_Date d m dd)"
  using checkWinner_unique_cells [OF day month date vd vm vt] .

theorem checkWinner_sound_witness:
  "checkWinner \<lparr>initBoardState = demo_board, boardState = demo_board\<rparr> (Calendar_Date 1 0 15) \<and>
   (\<exists>day month date. Calendar_Date 1 0 15 = Calendar_Date day month date \<and>
     2 < length (unOccupiedCells demo_board) \<and>
     (\<exists>c \<in> set (unOccupiedCells demo_board).
        cell_type c = ''day'' \<and> js_at dayName day = Some (cell_value c)) \<and>
     (\<exists>c \<in> set (unOccupiedCells demo_board).
        cell_type c = ''month'' \<and> js_at monthName month = Some (cell_value c)) \<and>
     (\<exists>c \<in> set (unOccupiedCells demo_board).
        cell_type c = ''date'' \<and> cell_value c = int_to_string date))"
proof -
  have h: "checkWinner \<lparr>initBoardState = demo_board, boardState = demo_board\<rparr> (Calendar_Date 1 0 15)"
    by code_simp
  show ?thesis
    using h checkWinner_sound [OF h] by simp
qed

theorem checkWinner_complete_witness:
  "filter (\<lambda>c. cell_type c = ''day'') (unOccupiedCells (demo_board[4 := occupy 1 (demo_board ! 4),
      5 := occupy 1 (demo_board ! 5), 6 := occupy 2 (demo_board ! 6), 7 := occupy 2 (demo_board ! 7)]))
     = [demo_board ! 0] \<and>
   checkWinner \<lparr>initBoardState = demo_board, boardState = demo_board[4 := occupy 1 (demo_board ! 4),
      5 := occupy 1 (demo_board ! 5), 6 := occupy 2 (demo_board ! 6), 7 := occupy 2 (demo_board ! 7)]\<rparr>
     (Calendar_Date 1 0 15)"
proof -
  let ?b = "demo_board[4 := occupy 1 (demo_board ! 4), 5 := occupy 1 (demo_board ! 5),
      6 := occupy 2 (demo_board ! 6), 7 := occupy 2 (demo_board ! 7)]"
  let ?s = "\<lparr>initBoardState = demo_board, boardState = ?b\<rparr>"
  have h: "filter (\<lambda>c. cell_type c = ''day'') (unOccupiedCells (boardState ?s)) = [demo_board ! 0]"
    "filter (\<lambda>c. cell_type c = ''month'') (unOccupiedCells (boardState ?s)) = [demo_board ! 1]"
    "filter (\<lambda>c. cell_type c = ''date'') (unOccupiedCells (boardState ?s)) = [demo_board ! 2]"
    "js_at dayName 1 = Some (cell_value (demo_board ! 0))"
    "js_at monthName 0 = Some (cell_value (demo_board ! 1))"
    "cell_value (demo_board ! 2) = int_to_string 15"
    by code_simp+
  show ?thesis
    using h checkWinner_complete [OF h] by simp
qed

text \<open>C17: a date string that does not parse (\<open>Invalid Date\<close>: \<open>getDay()\<close> is \<open>NaN\<close>
  and \<open>dayName[NaN]\<close> is \<open>undefined\<close>) never wins, whatever the board.\<close>

theorem checkWinner_invalid_date:
  "\<not> checkWinner s Invalid_Date"
proof -
  obtain x y z where dp: "date_parts Invalid_Date = (x, y, z)"
    by (cases "date_parts Invalid_Date") auto
  then have "y = None" by (simp add: date_parts_def)
  then show ?thesis
    by (auto simp: checkWinner_def dp Let_def split: option.splits)
qed

section \<open>The exact win rule\<close>

text \<open>C26: on a board with exactly three free non-blocked cells the code's first-match
  rule is the exact rule: a yes of \<open>checkWinner\<close> means the three free cells spell out
  the date. With more free cells the two differ (\<open>scenario_D_first_match\<close> in the root theory).\<close>

theorem checkWinner_three_free_exact:
  assumes win: "checkWinner s dt" and three: "length (unOccupiedCells (boardState s)) = 3"
  shows "solved_exact (boardState s) dt"
proof -
  let ?free = "unOccupiedCells (boardState s)"
  let ?D = "\<lambda>c. cell_type c = ''day''" and ?M = "\<lambda>c. cell_type c = ''month''"
    and ?T = "\<lambda>c. cell_type c = ''date''"
  from checkWinner_finds [OF win] obtain day month date cd cm ct
    where dt: "dt = Calendar_Date day month date"
      and fd: "find ?D ?free = Some cd" and fm: "find ?M ?free = Some cm" and ft: "find ?T ?free = Some ct"
      and vals: "js_at dayName day = Some (cell_value cd)" "js_at monthName month = Some (cell_value cm)"
        "cell_value ct = int_to_string date"
    by blast
  have sum: "length (filter ?D ?free) + length (filter ?M ?free) + length (filter ?T ?free) \<le> 3"
    using length_filter_disjoint3 [of ?D ?M ?T ?free] three by auto
  have one: "filter P ?free = [c]"
    if f: "find P ?free = Some c" and le: "length (filter P ?free) \<le> 1" for P c
  proof -
    from f obtain rest where "filter P ?free = c # rest"
      unfolding find_conv_filter by (auto split: list.splits)
    with le show ?thesis by simp
  qed
  have ne: "filter P ?free \<noteq> []" if "find P ?free = Some c" for P c
    using that unfolding find_conv_filter by auto
  have "length (filter ?D ?free) \<ge> 1" "length (filter ?M ?free) \<ge> 1" "length (filter ?T ?free) \<ge> 1"
    using ne [OF fd] ne [OF fm] ne [OF ft] by (simp_all add: Suc_le_eq)
  with sum have "length (filter ?D ?free) \<le> 1" "length (filter ?M ?free) \<le> 1" "length (filter ?T ?free) \<le> 1"
    by linarith+
  then have "filter ?D ?free = [cd]" "filter ?M ?free = [cm]" "filter ?T ?free = [ct]"
    using one [OF fd] one [OF fm] one [OF ft] by simp_all
  with dt vals three show ?thesis
    by (simp add: solved_exact_def date_parts_def)
qed

theorem checkWinner_three_free_exact_witness:
  "checkWinner solved_demo_state (Calendar_Date 1 0 15) \<and>
   length (unOccupiedCells (boardState solved_demo_state)) = 3 \<and>
   solved_exact (boardState solved_demo_state) (Calendar_Date 1 0 15)"
proof -
  have h: "checkWinner solved_demo_state (Calendar_Date 1 0 15)"
    "length (unOccupiedCells (boardState solved_demo_state)) = 3"
    by code_simp+
  show ?thesis
    using h checkWinner_three_free_exact [OF h] by simp
qed

end
