(* ===== verification/Game.thy ===== *)
theory Game
  imports Winner
begin

text \<open>
  The store as a state machine. The UI calls the store's actions one at a time
  (spec section 5: single-threaded, no interleaving inside an action), so a session is a
  sequence of calls, each a constructor of \<open>game_op\<close>; \<open>game_step\<close> is the action the
  call runs, and the queries \<open>canPlay\<close> and \<open>checkWinner\<close> leave the state as it is.
  \<open>reachable\<close> is the set of states a session can reach from the store's initial state
  when every layout passed to \<open>setboardState\<close> is well formed (the layout validation the
  spec asks for at initialisation, section 7). The invariant: the current board always has
  the layout of the initial snapshot (same ids, types, labels and grid positions, in the same
  order), the initial snapshot is a well-formed layout, and on both boards occupancy and
  piece ids agree.
\<close>

section \<open>Definitions\<close>

datatype game_op =
    SetBoard board
  | CanPlay piece int
  | PlacePiece piece int
  | RemovePiece piece
  | CheckWinner js_date
  | ResetGame

fun game_step :: "game_state \<Rightarrow> game_op \<Rightarrow> game_state" where
  "game_step s (SetBoard b) = setboardState s b"
| "game_step s (CanPlay p sid) = s"
| "game_step s (PlacePiece p sid) = placePiece s p sid"
| "game_step s (RemovePiece p) = removePiece s p"
| "game_step s (CheckWinner dt) = s"
| "game_step s ResetGame = resetGame s"

definition game_run :: "game_state \<Rightarrow> game_op list \<Rightarrow> game_state" where
  "game_run s ops = fold (\<lambda>op s. game_step s op) ops s"

text \<open>An operation the UI may issue: a layout it installs is well formed and free.\<close>

fun valid_op :: "game_op \<Rightarrow> bool" where
  "valid_op (SetBoard b) \<longleftrightarrow> wf_board b \<and> board_consistent b"
| "valid_op _ \<longleftrightarrow> True"

fun reinitialises :: "game_op \<Rightarrow> bool" where
  "reinitialises (SetBoard b) = True"
| "reinitialises _ = False"

inductive reachable :: "game_state \<Rightarrow> bool" where
  start: "reachable init_state"
| step: "reachable s \<Longrightarrow> valid_op op \<Longrightarrow> reachable (game_step s op)"

definition game_inv :: "game_state \<Rightarrow> bool" where
  "game_inv s \<longleftrightarrow> wf_board (initBoardState s) \<and> board_consistent (initBoardState s) \<and>
     map cell_layout (boardState s) = map cell_layout (initBoardState s) \<and>
     board_consistent (boardState s)"

text \<open>The current board differs from the initial snapshot at most in the occupancy fields:
  erasing \<open>isOccupied\<close> and \<open>pieceId\<close> from both gives the same list.\<close>

definition frame_kept :: "game_state \<Rightarrow> bool" where
  "frame_kept s \<longleftrightarrow> map vacate (boardState s) = map vacate (initBoardState s)"

section \<open>Each action keeps the invariant\<close>

lemma game_run_Cons [simp]: "game_run s (op # ops) = game_run (game_step s op) ops"
  by (simp add: game_run_def)

lemma game_run_Nil [simp]: "game_run s [] = s"
  by (simp add: game_run_def)

lemma game_inv_init: "game_inv init_state"
  by (simp add: game_inv_def init_state_def wf_board_def board_consistent_def)

lemma game_inv_setboardState:
  "wf_board b \<Longrightarrow> board_consistent b \<Longrightarrow> game_inv (setboardState s b)"
  by (simp add: game_inv_def setboardState_def)

lemma game_inv_placePiece: "game_inv s \<Longrightarrow> game_inv (placePiece s p sid)"
  by (auto simp: game_inv_def placePiece_def layout_for_each_ref_occupy cell_consistent_occupy
           intro!: consistent_for_each_ref findOccupiedCells_refs_less split: option.split)

lemma game_inv_removePiece: "game_inv s \<Longrightarrow> game_inv (removePiece s p)"
  by (auto simp: game_inv_def removePiece_def layout_for_each_ref_vacate cell_consistent_vacate
           intro!: consistent_for_each_ref findOccupiedCells_refs_less split: option.split)

lemma game_inv_resetGame: "game_inv s \<Longrightarrow> game_inv (resetGame s)"
  by (simp add: game_inv_def resetGame_def)

lemma game_inv_step: "game_inv s \<Longrightarrow> valid_op op \<Longrightarrow> game_inv (game_step s op)"
  by (cases op)
     (simp_all add: game_inv_setboardState game_inv_placePiece game_inv_removePiece
                    game_inv_resetGame)

lemma reachable_game_inv: "reachable s \<Longrightarrow> game_inv s"
proof (induction rule: reachable.induct)
  case start
  show ?case by (rule game_inv_init)
next
  case (step s op)
  then show ?case by (blast intro: game_inv_step)
qed

lemma initBoardState_step:
  "\<not> reinitialises op \<Longrightarrow> initBoardState (game_step s op) = initBoardState s"
  by (cases op) (simp_all add: placePiece_def removePiece_def resetGame_def split: option.split)

lemma initBoardState_run:
  "list_all (\<lambda>op. \<not> reinitialises op) ops \<Longrightarrow> initBoardState (game_run s ops) = initBoardState s"
  by (induction ops arbitrary: s) (simp_all add: initBoardState_step)

lemma frame_kept_step: "frame_kept s \<Longrightarrow> frame_kept (game_step s op)"
  by (cases op)
     (auto simp: frame_kept_def setboardState_def placePiece_def removePiece_def resetGame_def
                 frame_for_each_ref_occupy frame_for_each_ref_vacate split: option.split)

lemma frame_kept_run: "frame_kept s \<Longrightarrow> frame_kept (game_run s ops)"
  by (induction ops arbitrary: s) (simp_all add: frame_kept_step)

section \<open>Properties of sessions\<close>

text \<open>C2: in every state a session reaches, the current board is a well-formed layout,
  it has exactly the layout (ids, types, labels, grid positions, order) of the initial
  snapshot, and on every cell \<open>isOccupied\<close> holds exactly when \<open>pieceId\<close> is set.\<close>

theorem reachable_board_invariant:
  assumes "reachable s"
  shows "wf_board (boardState s) \<and> board_consistent (boardState s) \<and>
         map cell_layout (boardState s) = map cell_layout (initBoardState s)"
proof -
  from assms have inv: "game_inv s" by (rule reachable_game_inv)
  then have "wf_board (boardState s) \<longleftrightarrow> wf_board (initBoardState s)"
    by (intro wf_board_layout_cong) (simp add: game_inv_def)
  with inv show ?thesis by (simp add: game_inv_def)
qed

theorem reachable_board_invariant_witness:
  "reachable (game_step (game_step init_state (SetBoard demo_board))
     (PlacePiece \<lparr>piece_id = 7, shape = [[1, 1]], anchorCell = None\<rparr> 1)) \<and>
   wf_board (boardState (game_step (game_step init_state (SetBoard demo_board))
     (PlacePiece \<lparr>piece_id = 7, shape = [[1, 1]], anchorCell = None\<rparr> 1)))"
proof -
  have r: "reachable (game_step (game_step init_state (SetBoard demo_board))
     (PlacePiece \<lparr>piece_id = 7, shape = [[1, 1]], anchorCell = None\<rparr> 1))"
    using wf_demo_board board_consistent_demo_board
    by (intro reachable.step reachable.start) simp_all
  show ?thesis
    using r reachable_board_invariant [OF r] by blast
qed

text \<open>C11: spec section 8, reset. After \<open>setboardState b\<close>, whatever sequence of
  actions follows (other than a new \<open>setboardState\<close>), the initial snapshot is still
  \<open>b\<close>, and \<open>resetGame\<close> makes the current board \<open>b\<close> again.\<close>

theorem reset_restores_layout:
  assumes "list_all (\<lambda>op. \<not> reinitialises op) ops"
  shows "initBoardState (game_run (setboardState s b) ops) = b \<and>
         boardState (game_step (game_run (setboardState s b) ops) ResetGame) = b"
  using initBoardState_run [OF assms, of "setboardState s b"]
  by (simp add: setboardState_def resetGame_def)

theorem reset_restores_layout_witness:
  "list_all (\<lambda>op. \<not> reinitialises op)
     [PlacePiece \<lparr>piece_id = 7, shape = [[1, 1]], anchorCell = None\<rparr> 1, ResetGame] \<and>
   boardState (game_step (game_run (setboardState init_state demo_board)
     [PlacePiece \<lparr>piece_id = 7, shape = [[1, 1]], anchorCell = None\<rparr> 1, ResetGame]) ResetGame)
     = demo_board"
proof -
  have h: "list_all (\<lambda>op. \<not> reinitialises op)
     [PlacePiece \<lparr>piece_id = 7, shape = [[1, 1]], anchorCell = None\<rparr> 1, ResetGame]"
    by simp
  show ?thesis
    using h reset_restores_layout [OF h, of init_state demo_board] by blast
qed

text \<open>C19: spec section 3, lifecycle: cells are mutable only in their occupancy fields.
  Whatever sequence of store calls runs from the initial store, well-formed layouts or
  not, the current board differs from the initial snapshot only in \<open>isOccupied\<close> and
  \<open>pieceId\<close>: erasing those two fields from both boards gives the same list (same length,
  same order, every other field, pixel attributes included, equal).\<close>

theorem run_only_occupancy_changes:
  "map vacate (boardState (game_run init_state ops)) =
   map vacate (initBoardState (game_run init_state ops))"
proof -
  have "frame_kept init_state"
    by (simp add: frame_kept_def init_state_def)
  then show ?thesis
    using frame_kept_run [of init_state ops] by (simp add: frame_kept_def)
qed

end
