(* ===== verification/Protocol.thy ===== *)
theory Protocol
  imports Game
begin

text \<open>
  The ownership invariant of spec section 3 ("every occupied cell's \<open>pieceId\<close> refers to
  a piece that currently claims it"), which the store alone does not keep (C13): it holds
  for the calling protocol the spec prescribes. A session pairs the store with the ghost
  list of pieces on the board, each with its anchor recorded. \<open>legal_session\<close> is the
  set of sessions the UI can produce: a free, well-formed layout is installed; a piece with
  a fresh id is placed only where \<open>canPlay\<close> allows it, and its anchor recorded; a placed
  piece is removed by its recorded anchor; a reset takes every piece off. The piece a cell
  belongs to is recomputed from geometry (\<open>cover_of\<close>), as \<open>removePiece\<close> does.
\<close>

section \<open>Definitions\<close>

record session =
  store :: game_state
  placed :: "piece list"

text \<open>The cells a piece with a recorded anchor covers, as \<open>removePiece\<close> computes them.\<close>

definition cover_of :: "board \<Rightarrow> piece \<Rightarrow> nat list" where
  "cover_of b p =
     (case find_idx (\<lambda>cell. Some (cell_id cell) = anchorCell p) b of
        None \<Rightarrow> []
      | Some a \<Rightarrow> findOccupiedCells (shape p) b (b ! a))"

definition cell_free :: "cell \<Rightarrow> bool" where
  "cell_free c \<longleftrightarrow> \<not> isOccupied c \<and> pieceId c = None"

inductive legal_session :: "session \<Rightarrow> bool" where
  install: "wf_board b \<Longrightarrow> list_all cell_free b \<Longrightarrow>
     legal_session \<lparr>store = setboardState init_state b, placed = []\<rparr>"
| place: "legal_session \<sigma> \<Longrightarrow> canPlay (store \<sigma>) p sid \<Longrightarrow>
     piece_id p \<notin> set (map piece_id (placed \<sigma>)) \<Longrightarrow>
     legal_session \<lparr>store = placePiece (store \<sigma>) p sid,
                    placed = p\<lparr>anchorCell := Some sid\<rparr> # placed \<sigma>\<rparr>"
| remove: "legal_session \<sigma> \<Longrightarrow> p \<in> set (placed \<sigma>) \<Longrightarrow>
     legal_session \<lparr>store = removePiece (store \<sigma>) p, placed = remove1 p (placed \<sigma>)\<rparr>"
| reset: "legal_session \<sigma> \<Longrightarrow>
     legal_session \<lparr>store = resetGame (store \<sigma>), placed = []\<rparr>"

text \<open>Cell \<open>i\<close> is owned correctly: covered by some placed piece exactly when occupied,
  and then tagged with the id of every piece that covers it; free otherwise.\<close>

definition owned_ok :: "board \<Rightarrow> piece list \<Rightarrow> nat \<Rightarrow> bool" where
  "owned_ok b ps i \<longleftrightarrow>
     (if \<exists>p \<in> set ps. i \<in> set (cover_of b p)
      then isOccupied (b ! i) \<and> (\<forall>p \<in> set ps. i \<in> set (cover_of b p) \<longrightarrow> pieceId (b ! i) = Some (piece_id p))
      else cell_free (b ! i))"

definition owner_inv :: "session \<Rightarrow> bool" where
  "owner_inv \<sigma> \<longleftrightarrow>
     map cell_layout (boardState (store \<sigma>)) = map cell_layout (initBoardState (store \<sigma>)) \<and>
     list_all cell_free (initBoardState (store \<sigma>)) \<and>
     distinct (map piece_id (placed \<sigma>)) \<and>
     (\<forall>p \<in> set (placed \<sigma>). \<forall>q \<in> set (placed \<sigma>). p \<noteq> q \<longrightarrow>
        set (cover_of (boardState (store \<sigma>)) p) \<inter> set (cover_of (boardState (store \<sigma>)) q) = {}) \<and>
     (\<forall>i < length (boardState (store \<sigma>)). owned_ok (boardState (store \<sigma>)) (placed \<sigma>) i)"

text \<open>Taking one placed piece off by its recorded anchor, and taking every placed piece
  off, one after the other in the order of the ghost list, with no reset.\<close>

definition remove_placed :: "session \<Rightarrow> piece \<Rightarrow> session" where
  "remove_placed \<sigma> p = \<lparr>store = removePiece (store \<sigma>) p, placed = remove1 p (placed \<sigma>)\<rparr>"

definition clear_session :: "session \<Rightarrow> session" where
  "clear_session \<sigma> = fold (\<lambda>p \<sigma>. remove_placed \<sigma> p) (placed \<sigma>) \<sigma>"

section \<open>The actions on covers\<close>

lemma map_mark_refs:
  assumes "\<And>x. g (f x) = g x"
  shows "map g (mark_refs f refs xs) = map g xs"
  by (rule nth_equalityI) (simp_all add: nth_mark_refs assms)

lemma cover_of_less: "\<forall>i \<in> set (cover_of b p). i < length b"
  by (auto simp: cover_of_def split: option.split dest: findOccupiedCells_less)

text \<open>A piece covers the same cells on every board with the same layout.\<close>

lemma cover_of_layout:
  assumes lay: "map cell_layout b' = map cell_layout b"
  shows "cover_of b' p = cover_of b p"
proof -
  have ids: "map cell_id b' = map cell_id b"
    using arg_cong [OF lay, of "map fst"] by (simp add: comp_def cell_layout_def)
  have find: "find_idx (\<lambda>cell. Some (cell_id cell) = anchorCell p) b' =
      find_idx (\<lambda>cell. Some (cell_id cell) = anchorCell p) b"
    using find_idx_cong_map [OF ids, of "\<lambda>k. Some k = anchorCell p"] by simp
  have len: "length b' = length b"
    using map_eq_imp_length_eq [OF lay] .
  have pos: "rowIndex (b' ! a) = rowIndex (b ! a) \<and> colIndex (b' ! a) = colIndex (b ! a)"
    if "a < length b" for a
    using nth_map [of a b' cell_layout] nth_map [of a b cell_layout] lay len that
    by (simp add: cell_layout_def)
  show ?thesis
    unfolding cover_of_def find
    by (auto split: option.split dest!: find_idx_less pos intro: findOccupiedCells_cong [OF ids])
qed

lemma placePiece_cover_of:
  assumes "canPlay s p sid"
  shows "boardState (placePiece s p sid) =
           mark_refs (occupy (piece_id p)) (cover_of (boardState s) (p\<lparr>anchorCell := Some sid\<rparr>))
             (boardState s)
       \<and> initBoardState (placePiece s p sid) = initBoardState s"
  using assms
  by (auto simp: canPlay_def placePiece_def cover_of_def find_anchor_def
                 for_each_ref_eq_mark_refs findOccupiedCells_refs_less split: option.splits)

lemma removePiece_cover_of:
  "boardState (removePiece s p) = mark_refs vacate (cover_of (boardState s) p) (boardState s)
   \<and> initBoardState (removePiece s p) = initBoardState s"
  by (auto simp: removePiece_def cover_of_def for_each_ref_eq_mark_refs
                 findOccupiedCells_refs_less mark_refs_def map_nth split: option.splits)

text \<open>Without the \<open>canPlay\<close> check, \<open>placePiece\<close> writes the same cells.\<close>

lemma placePiece_mark_refs:
  "boardState (placePiece s p sid) =
     mark_refs (occupy (piece_id p)) (cover_of (boardState s) (p\<lparr>anchorCell := Some sid\<rparr>)) (boardState s)"
  by (auto simp: placePiece_def cover_of_def find_anchor_def for_each_ref_eq_mark_refs
                 findOccupiedCells_refs_less mark_refs_def map_nth split: option.splits)

lemma cover_of_after_place:
  "cover_of (boardState (placePiece s p sid)) q = cover_of (boardState s) q"
  unfolding placePiece_mark_refs by (rule cover_of_layout) (rule map_mark_refs, simp)

lemma canPlay_cover_free:
  assumes "canPlay s p sid" and "i \<in> set (cover_of (boardState s) (p\<lparr>anchorCell := Some sid\<rparr>))"
  shows "\<not> isOccupied (boardState s ! i)"
  using assms
  by (auto simp: canPlay_def cover_of_def find_anchor_def list_all_iff blocks_piece_def
           split: option.splits)

section \<open>Each protocol step keeps the invariant\<close>

lemma owner_inv_install:
  "list_all cell_free b \<Longrightarrow> owner_inv \<lparr>store = setboardState init_state b, placed = []\<rparr>"
  by (simp add: owner_inv_def setboardState_def owned_ok_def list_all_length)

lemma owner_inv_reset:
  "owner_inv \<sigma> \<Longrightarrow> owner_inv \<lparr>store = resetGame (store \<sigma>), placed = []\<rparr>"
  by (simp add: owner_inv_def resetGame_def owned_ok_def list_all_length)

lemma owner_inv_occupied:
  "owner_inv \<sigma> \<Longrightarrow> q \<in> set (placed \<sigma>) \<Longrightarrow> i \<in> set (cover_of (boardState (store \<sigma>)) q) \<Longrightarrow>
   isOccupied (boardState (store \<sigma>) ! i)"
proof -
  assume inv: "owner_inv \<sigma>" and q: "q \<in> set (placed \<sigma>)"
    and i: "i \<in> set (cover_of (boardState (store \<sigma>)) q)"
  have "i < length (boardState (store \<sigma>))"
    using cover_of_less i by blast
  with inv have "owned_ok (boardState (store \<sigma>)) (placed \<sigma>) i"
    by (simp add: owner_inv_def)
  moreover have "\<exists>p \<in> set (placed \<sigma>). i \<in> set (cover_of (boardState (store \<sigma>)) p)"
    using q i by blast
  ultimately show ?thesis by (simp add: owned_ok_def)
qed

lemma owner_inv_place:
  assumes inv: "owner_inv \<sigma>" and play: "canPlay (store \<sigma>) p sid"
    and fresh: "piece_id p \<notin> set (map piece_id (placed \<sigma>))"
  shows "owner_inv \<lparr>store = placePiece (store \<sigma>) p sid, placed = p\<lparr>anchorCell := Some sid\<rparr> # placed \<sigma>\<rparr>"
proof -
  let ?b = "boardState (store \<sigma>)" and ?ps = "placed \<sigma>" and ?p' = "p\<lparr>anchorCell := Some sid\<rparr>"
  let ?C = "cover_of ?b ?p'"
  let ?b' = "mark_refs (occupy (piece_id p)) ?C ?b"
  have st: "boardState (placePiece (store \<sigma>) p sid) = ?b'"
    "initBoardState (placePiece (store \<sigma>) p sid) = initBoardState (store \<sigma>)"
    using placePiece_cover_of [OF play] by simp_all
  have lay: "map cell_layout ?b' = map cell_layout ?b"
    by (rule map_mark_refs) simp
  have cov: "cover_of ?b' q = cover_of ?b q" for q
    using lay by (rule cover_of_layout)
  have disj_new: "set ?C \<inter> set (cover_of ?b q) = {}" if "q \<in> set ?ps" for q
    using canPlay_cover_free [OF play] owner_inv_occupied [OF inv that] by blast
  have notin: "?p' \<notin> set ?ps"
  proof
    assume "?p' \<in> set ?ps"
    then have "piece_id ?p' \<in> piece_id ` set ?ps" by (rule imageI)
    with fresh show False by simp
  qed
  have disj: "\<forall>p1 \<in> set (?p' # ?ps). \<forall>p2 \<in> set (?p' # ?ps). p1 \<noteq> p2 \<longrightarrow>
      set (cover_of ?b' p1) \<inter> set (cover_of ?b' p2) = {}"
    using inv disj_new unfolding cov owner_inv_def by auto
  have own: "owned_ok ?b' (?p' # ?ps) i" if i: "i < length ?b'" for i
  proof (cases "i \<in> set ?C")
    case True
    then have "\<forall>q \<in> set ?ps. i \<notin> set (cover_of ?b q)"
      using disj_new by blast
    with True i show ?thesis
      by (simp add: owned_ok_def cov nth_mark_refs occupy_def)
  next
    case False
    with inv i have "owned_ok ?b ?ps i" by (simp add: owner_inv_def)
    with False i show ?thesis
      by (simp add: owned_ok_def cov nth_mark_refs)
  qed
  show ?thesis
    using inv fresh lay disj own unfolding owner_inv_def by (simp add: st)
qed

lemma owner_inv_remove:
  assumes inv: "owner_inv \<sigma>" and p: "p \<in> set (placed \<sigma>)"
  shows "owner_inv \<lparr>store = removePiece (store \<sigma>) p, placed = remove1 p (placed \<sigma>)\<rparr>"
proof -
  let ?b = "boardState (store \<sigma>)" and ?ps = "placed \<sigma>"
  let ?C = "cover_of ?b p"
  let ?b' = "mark_refs vacate ?C ?b"
  have st: "boardState (removePiece (store \<sigma>) p) = ?b'"
    "initBoardState (removePiece (store \<sigma>) p) = initBoardState (store \<sigma>)"
    using removePiece_cover_of [of "store \<sigma>" p] by simp_all
  have lay: "map cell_layout ?b' = map cell_layout ?b"
    by (rule map_mark_refs) simp
  have cov: "cover_of ?b' q = cover_of ?b q" for q
    using lay by (rule cover_of_layout)
  have dist: "distinct ?ps"
    using inv by (simp add: owner_inv_def distinct_map)
  then have rest: "set (remove1 p ?ps) = set ?ps - {p}"
    by simp
  have disj_p: "set ?C \<inter> set (cover_of ?b q) = {}" if "q \<in> set ?ps" "q \<noteq> p" for q
    using inv p that by (auto simp: owner_inv_def)
  have own: "owned_ok ?b' (remove1 p ?ps) i" if i: "i < length ?b'" for i
  proof (cases "i \<in> set ?C")
    case True
    then have "\<forall>q \<in> set (remove1 p ?ps). i \<notin> set (cover_of ?b q)"
      using disj_p rest by blast
    with True i show ?thesis
      by (simp add: owned_ok_def cov nth_mark_refs vacate_def cell_free_def)
  next
    case False
    with inv i have "owned_ok ?b ?ps i" by (simp add: owner_inv_def)
    moreover have "(\<exists>q \<in> set (remove1 p ?ps). i \<in> set (cover_of ?b q)) \<longleftrightarrow>
        (\<exists>q \<in> set ?ps. i \<in> set (cover_of ?b q))"
      using False rest by auto
    ultimately show ?thesis
      using False i rest by (simp add: owned_ok_def cov nth_mark_refs)
  qed
  have "distinct (map piece_id (remove1 p ?ps))"
    using inv by (simp add: owner_inv_def distinct_map_remove1)
  moreover have "\<forall>p1 \<in> set (remove1 p ?ps). \<forall>p2 \<in> set (remove1 p ?ps). p1 \<noteq> p2 \<longrightarrow>
      set (cover_of ?b' p1) \<inter> set (cover_of ?b' p2) = {}"
    using inv rest unfolding cov owner_inv_def by blast
  ultimately show ?thesis
    using inv lay own unfolding owner_inv_def by (simp add: st)
qed

lemma legal_session_owner_inv: "legal_session \<sigma> \<Longrightarrow> owner_inv \<sigma>"
proof (induction rule: legal_session.induct)
  case (install b)
  then show ?case by (blast intro: owner_inv_install)
next
  case (place \<sigma> p sid)
  then show ?case by (blast intro: owner_inv_place)
next
  case (remove \<sigma> p)
  then show ?case by (blast intro: owner_inv_remove)
next
  case (reset \<sigma>)
  then show ?case by (blast intro: owner_inv_reset)
qed

section \<open>Taking every piece off\<close>

text \<open>A legal session is a session of the store machine: each protocol step is a store
  call, so the store keeps its frame (only occupancy fields differ from the snapshot).\<close>

lemma legal_session_frame: "legal_session \<sigma> \<Longrightarrow> frame_kept (store \<sigma>)"
proof (induction rule: legal_session.induct)
  case (install b)
  then show ?case by (simp add: frame_kept_def setboardState_def)
next
  case (place \<sigma> p sid)
  then show ?case using frame_kept_step [of "store \<sigma>" "PlacePiece p sid"] by simp
next
  case (remove \<sigma> p)
  then show ?case using frame_kept_step [of "store \<sigma>" "RemovePiece p"] by simp
next
  case (reset \<sigma>)
  then show ?case using frame_kept_step [of "store \<sigma>" ResetGame] by simp
qed

lemma initBoardState_remove_placed:
  "initBoardState (store (remove_placed \<sigma> p)) = initBoardState (store \<sigma>)"
  by (simp add: remove_placed_def removePiece_def split: option.split)

lemma fold_remove_placed:
  assumes "legal_session \<sigma>" and "placed \<sigma> = ps"
  shows "legal_session (fold (\<lambda>p \<sigma>. remove_placed \<sigma> p) ps \<sigma>) \<and>
         placed (fold (\<lambda>p \<sigma>. remove_placed \<sigma> p) ps \<sigma>) = [] \<and>
         initBoardState (store (fold (\<lambda>p \<sigma>. remove_placed \<sigma> p) ps \<sigma>)) = initBoardState (store \<sigma>)"
  using assms
proof (induction ps arbitrary: \<sigma>)
  case Nil
  then show ?case by simp
next
  case (Cons p ps)
  have "legal_session \<lparr>store = removePiece (store \<sigma>) p, placed = remove1 p (placed \<sigma>)\<rparr>"
    using Cons.prems(1) by (rule legal_session.remove) (simp add: Cons.prems(2))
  then have "legal_session (remove_placed \<sigma> p)"
    by (simp add: remove_placed_def)
  moreover have "placed (remove_placed \<sigma> p) = ps"
    using Cons.prems by (simp add: remove_placed_def)
  ultimately show ?case
    using Cons.IH [of "remove_placed \<sigma> p"] by (simp add: initBoardState_remove_placed)
qed

text \<open>A session with no piece placed has the installed layout as its board.\<close>

lemma empty_session_board:
  assumes "legal_session \<sigma>" and "placed \<sigma> = []"
  shows "boardState (store \<sigma>) = initBoardState (store \<sigma>)"
proof -
  let ?b = "boardState (store \<sigma>)" and ?bi = "initBoardState (store \<sigma>)"
  have inv: "owner_inv \<sigma>" using assms(1) by (rule legal_session_owner_inv)
  have fr: "map vacate ?b = map vacate ?bi"
    using legal_session_frame [OF assms(1)] by (simp add: frame_kept_def)
  then have len: "length ?b = length ?bi"
    using map_eq_imp_length_eq by blast
  show ?thesis
  proof (rule nth_equalityI)
    show "length ?b = length ?bi" by (rule len)
  next
    fix i
    assume i: "i < length ?b"
    have "cell_free (?b ! i)"
      using inv i assms(2) by (simp add: owner_inv_def owned_ok_def)
    moreover have "cell_free (?bi ! i)"
      using inv i len by (simp add: owner_inv_def list_all_length)
    moreover have "vacate (?b ! i) = vacate (?bi ! i)"
      using fr i len nth_map [of i ?b vacate] nth_map [of i ?bi vacate] by simp
    ultimately show "?b ! i = ?bi ! i"
      by (simp add: cell_free_def vacate_free)
  qed
qed

text \<open>A sample legal session: the sample layout installed and a domino placed on cell 1.\<close>

lemma legal_session_domino:
  "legal_session \<lparr>store = placePiece (setboardState init_state demo_board)
       \<lparr>piece_id = 7, shape = [[1, 1]], anchorCell = None\<rparr> 1,
     placed = [\<lparr>piece_id = 7, shape = [[1, 1]], anchorCell = Some 1\<rparr>]\<rparr>"
proof -
  let ?p = "\<lparr>piece_id = 7, shape = [[1, 1]], anchorCell = None\<rparr>"
  let ?s0 = "\<lparr>store = setboardState init_state demo_board, placed = []\<rparr>"
  have free: "list_all cell_free demo_board"
    by (simp add: demo_board_def grid_cell_def cell_free_def)
  have l0: "legal_session ?s0"
    by (rule legal_session.install [OF wf_demo_board free])
  have play: "canPlay (store ?s0) ?p 1"
    by code_simp
  have fresh: "piece_id ?p \<notin> set (map piece_id (placed ?s0))"
    by simp
  have "legal_session \<lparr>store = placePiece (store ?s0) ?p 1,
      placed = ?p\<lparr>anchorCell := Some 1\<rparr> # placed ?s0\<rparr>"
    by (rule legal_session.place [OF l0 play fresh])
  then show ?thesis
    by simp
qed

section \<open>Unchecked calls\<close>

text \<open>C13: \<open>placePiece\<close> does not check legality and \<open>removePiece\<close> does not check
  ownership. Whenever two placements overlap on a cell (which \<open>canPlay\<close> would have
  refused for the second), the second piece takes the cell over, and removing the first
  piece by its anchor then frees the cell though the second piece still covers it: the
  invariant of spec section 3 needs the caller to check \<open>canPlay\<close>.\<close>

theorem remove_frees_other_piece:
  assumes c1: "c \<in> set (cover_of (boardState s) (p\<lparr>anchorCell := Some a1\<rparr>))"
    and c2: "c \<in> set (cover_of (boardState s) (q\<lparr>anchorCell := Some a2\<rparr>))"
  shows "pieceId (boardState (placePiece (placePiece s p a1) q a2) ! c) = Some (piece_id q) \<and>
    \<not> isOccupied (boardState (removePiece (placePiece (placePiece s p a1) q a2)
        (p\<lparr>anchorCell := Some a1\<rparr>)) ! c) \<and>
    pieceId (boardState (removePiece (placePiece (placePiece s p a1) q a2)
        (p\<lparr>anchorCell := Some a1\<rparr>)) ! c) = None"
proof -
  let ?s2 = "placePiece (placePiece s p a1) q a2"
  have len: "c < length (boardState s)"
    using c1 cover_of_less by blast
  have cov2: "cover_of (boardState (placePiece s p a1)) (q\<lparr>anchorCell := Some a2\<rparr>) =
      cover_of (boardState s) (q\<lparr>anchorCell := Some a2\<rparr>)"
    by (rule cover_of_after_place)
  have cov1: "cover_of (boardState ?s2) (p\<lparr>anchorCell := Some a1\<rparr>) =
      cover_of (boardState s) (p\<lparr>anchorCell := Some a1\<rparr>)"
    by (simp only: cover_of_after_place)
  have b2: "boardState ?s2 = mark_refs (occupy (piece_id q))
      (cover_of (boardState s) (q\<lparr>anchorCell := Some a2\<rparr>)) (boardState (placePiece s p a1))"
    by (simp only: placePiece_mark_refs [of "placePiece s p a1"] cov2)
  have len1: "c < length (boardState (placePiece s p a1))"
    using len by (simp add: placePiece_mark_refs)
  have placed: "pieceId (boardState ?s2 ! c) = Some (piece_id q)"
    using len1 c2 by (simp add: b2 nth_mark_refs occupy_def)
  have rem: "boardState (removePiece ?s2 (p\<lparr>anchorCell := Some a1\<rparr>)) =
      mark_refs vacate (cover_of (boardState s) (p\<lparr>anchorCell := Some a1\<rparr>)) (boardState ?s2)"
    by (simp only: removePiece_cover_of [THEN conjunct1] cov1)
  have len2: "c < length (boardState ?s2)"
    using len1 by (simp add: b2)
  have "boardState (removePiece ?s2 (p\<lparr>anchorCell := Some a1\<rparr>)) ! c = vacate (boardState ?s2 ! c)"
    using len2 c1 by (simp only: rem nth_mark_refs if_True)
  with placed show ?thesis
    by (simp add: vacate_def)
qed

theorem remove_frees_other_piece_witness:
  "1 \<in> set (cover_of demo_board \<lparr>piece_id = 7, shape = [[1, 1]], anchorCell = Some 1\<rparr>) \<and>
   1 \<in> set (cover_of demo_board \<lparr>piece_id = 8, shape = [[1]], anchorCell = Some 2\<rparr>) \<and>
   pieceId (boardState (placePiece (placePiece \<lparr>initBoardState = demo_board, boardState = demo_board\<rparr>
       \<lparr>piece_id = 7, shape = [[1, 1]], anchorCell = None\<rparr> 1)
     \<lparr>piece_id = 8, shape = [[1]], anchorCell = None\<rparr> 2) ! 1) = Some 8 \<and>
   pieceId (boardState (removePiece (placePiece (placePiece \<lparr>initBoardState = demo_board, boardState = demo_board\<rparr>
       \<lparr>piece_id = 7, shape = [[1, 1]], anchorCell = None\<rparr> 1)
     \<lparr>piece_id = 8, shape = [[1]], anchorCell = None\<rparr> 2)
     \<lparr>piece_id = 7, shape = [[1, 1]], anchorCell = Some 1\<rparr>) ! 1) = None"
proof -
  let ?s = "\<lparr>initBoardState = demo_board, boardState = demo_board\<rparr>"
  let ?p = "\<lparr>piece_id = 7, shape = [[1, 1]], anchorCell = None\<rparr>"
  let ?q = "\<lparr>piece_id = 8, shape = [[1]], anchorCell = None\<rparr>"
  have h: "1 \<in> set (cover_of (boardState ?s) (?p\<lparr>anchorCell := Some 1\<rparr>))"
    "1 \<in> set (cover_of (boardState ?s) (?q\<lparr>anchorCell := Some 2\<rparr>))"
    by code_simp+
  show ?thesis
    using h remove_frees_other_piece [OF h] by simp
qed

section \<open>Ownership\<close>

text \<open>C18: the ownership invariant of spec section 3 under the calling protocol. In every
  legal session, a cell is occupied exactly when a placed piece covers it (recomputed from
  the piece's recorded anchor and shape, as \<open>removePiece\<close> does), its \<open>pieceId\<close> is the
  id of every piece covering it, a free cell has no \<open>pieceId\<close>, and no two placed pieces
  cover a common cell.\<close>

theorem legal_session_ownership:
  assumes "legal_session \<sigma>" and "i < length (boardState (store \<sigma>))"
  shows "(isOccupied (boardState (store \<sigma>) ! i) \<longleftrightarrow>
            (\<exists>p \<in> set (placed \<sigma>). i \<in> set (cover_of (boardState (store \<sigma>)) p))) \<and>
         (\<forall>p \<in> set (placed \<sigma>). i \<in> set (cover_of (boardState (store \<sigma>)) p) \<longrightarrow>
            pieceId (boardState (store \<sigma>) ! i) = Some (piece_id p)) \<and>
         (\<not> isOccupied (boardState (store \<sigma>) ! i) \<longrightarrow> pieceId (boardState (store \<sigma>) ! i) = None) \<and>
         (\<forall>p \<in> set (placed \<sigma>). \<forall>q \<in> set (placed \<sigma>). p \<noteq> q \<longrightarrow>
            set (cover_of (boardState (store \<sigma>)) p) \<inter> set (cover_of (boardState (store \<sigma>)) q) = {})"
proof -
  from assms(1) have inv: "owner_inv \<sigma>" by (rule legal_session_owner_inv)
  with assms(2) have ok: "owned_ok (boardState (store \<sigma>)) (placed \<sigma>) i"
    by (simp add: owner_inv_def)
  have disj: "\<forall>p \<in> set (placed \<sigma>). \<forall>q \<in> set (placed \<sigma>). p \<noteq> q \<longrightarrow>
      set (cover_of (boardState (store \<sigma>)) p) \<inter> set (cover_of (boardState (store \<sigma>)) q) = {}"
    using inv by (simp add: owner_inv_def)
  show ?thesis
  proof (cases "\<exists>p \<in> set (placed \<sigma>). i \<in> set (cover_of (boardState (store \<sigma>)) p)")
    case True
    with ok disj show ?thesis by (simp add: owned_ok_def)
  next
    case False
    with ok disj show ?thesis by (auto simp: owned_ok_def cell_free_def)
  qed
qed

theorem legal_session_ownership_witness:
  "legal_session \<lparr>store = placePiece (setboardState init_state demo_board)
       \<lparr>piece_id = 7, shape = [[1, 1]], anchorCell = None\<rparr> 1,
     placed = [\<lparr>piece_id = 7, shape = [[1, 1]], anchorCell = Some 1\<rparr>]\<rparr> \<and>
   pieceId (boardState (placePiece (setboardState init_state demo_board)
       \<lparr>piece_id = 7, shape = [[1, 1]], anchorCell = None\<rparr> 1) ! 1) = Some 7"
proof -
  let ?p = "\<lparr>piece_id = 7, shape = [[1, 1]], anchorCell = None\<rparr>"
  note l = legal_session_domino
  have len: "1 < length (boardState (store \<lparr>store = placePiece (setboardState init_state demo_board) ?p 1,
      placed = [\<lparr>piece_id = 7, shape = [[1, 1]], anchorCell = Some 1\<rparr>]\<rparr>))"
    by code_simp
  have cov: "1 \<in> set (cover_of (boardState (placePiece (setboardState init_state demo_board) ?p 1))
      \<lparr>piece_id = 7, shape = [[1, 1]], anchorCell = Some 1\<rparr>)"
    by code_simp
  show ?thesis
    using l cov legal_session_ownership [OF l len] by simp
qed

text \<open>C20: from every legal session the board can be brought back to the installed
  layout without \<open>resetGame\<close>: removing the placed pieces one after the other, each by
  its recorded anchor, is a legal run of the protocol, leaves no piece placed, and ends on
  a board equal to the initial snapshot (the placements the UI made are exactly undone).\<close>

theorem legal_session_clears:
  assumes "legal_session \<sigma>"
  shows "legal_session (clear_session \<sigma>) \<and> placed (clear_session \<sigma>) = [] \<and>
         boardState (store (clear_session \<sigma>)) = initBoardState (store \<sigma>)"
proof -
  have f: "legal_session (clear_session \<sigma>)" "placed (clear_session \<sigma>) = []"
      "initBoardState (store (clear_session \<sigma>)) = initBoardState (store \<sigma>)"
    using fold_remove_placed [OF assms refl] by (simp_all add: clear_session_def)
  show ?thesis
    using f empty_session_board [OF f(1,2)] by simp
qed

theorem legal_session_clears_witness:
  "legal_session \<lparr>store = placePiece (setboardState init_state demo_board)
       \<lparr>piece_id = 7, shape = [[1, 1]], anchorCell = None\<rparr> 1,
     placed = [\<lparr>piece_id = 7, shape = [[1, 1]], anchorCell = Some 1\<rparr>]\<rparr> \<and>
   isOccupied (boardState (placePiece (setboardState init_state demo_board)
       \<lparr>piece_id = 7, shape = [[1, 1]], anchorCell = None\<rparr> 1) ! 0) \<and>
   boardState (store (clear_session \<lparr>store = placePiece (setboardState init_state demo_board)
       \<lparr>piece_id = 7, shape = [[1, 1]], anchorCell = None\<rparr> 1,
     placed = [\<lparr>piece_id = 7, shape = [[1, 1]], anchorCell = Some 1\<rparr>]\<rparr>)) = demo_board"
proof -
  note l = legal_session_domino
  have occ: "isOccupied (boardState (placePiece (setboardState init_state demo_board)
       \<lparr>piece_id = 7, shape = [[1, 1]], anchorCell = None\<rparr> 1) ! 0)"
    by code_simp
  have init: "initBoardState (placePiece (setboardState init_state demo_board)
       \<lparr>piece_id = 7, shape = [[1, 1]], anchorCell = None\<rparr> 1) = demo_board"
    by (simp add: placePiece_def setboardState_def split: option.split)
  show ?thesis
    using l occ init legal_session_clears [OF l] by simp
qed

end
