(* ===== verification/Legality.thy ===== *)
theory Legality
  imports Store
begin

text \<open>
  The full-coverage legality rule that spec section 4.2 and the open question of section 9
  ask an implementer to weigh against the permissive rule \<open>canPlay\<close> implements. The spec
  words it as a test on the resolver's result: the covered-cell count must equal the number
  of 1s in the shape. \<open>canPlay_full\<close> is \<open>canPlay\<close> with that test added;
  \<open>placement_ok\<close> is the geometric contract a placement should meet (every 1-cell of the
  shape lands on a board cell at the shifted grid position, and that cell neither occupied
  nor blocked). The lemmas show that the strict rule is the permissive one plus the test that
  every 1-cell lands on a cell, and that on a well-formed board, for a shape inside the
  columns, the strict rule is exactly the geometric contract. Neither definition is code of the repository: they are the
  specifications the code's \<open>canPlay\<close> is compared with.
\<close>

section \<open>Definitions\<close>

definition canPlay_full :: "game_state \<Rightarrow> piece \<Rightarrow> int \<Rightarrow> bool" where
  "canPlay_full s piece startingCellId =
     (case find_anchor (boardState s) startingCellId of
        None \<Rightarrow> False
      | Some anchor \<Rightarrow>
          (let occupiedCells = findOccupiedCells (shape piece) (boardState s) (boardState s ! anchor)
           in length occupiedCells = shape_area (shape piece) \<and>
              list_all (\<lambda>cell. \<not> blocks_piece (boardState s ! cell)) occupiedCells))"

definition placement_ok :: "board \<Rightarrow> cell \<Rightarrow> int list list \<Rightarrow> bool" where
  "placement_ok b anchor sh \<longleftrightarrow>
     (\<forall>(dr, dc) \<in> shape_cells sh. \<exists>i < length b.
        rowIndex (b ! i) = rowIndex anchor + int dr \<and> colIndex (b ! i) = colIndex anchor + int dc \<and>
        \<not> blocks_piece (b ! i))"

section \<open>Lemmas\<close>

lemma canPlay_full_split:
  "canPlay_full s p sid \<longleftrightarrow> canPlay s p sid \<and>
     (case find_anchor (boardState s) sid of
        None \<Rightarrow> False
      | Some a \<Rightarrow> length (findOccupiedCells (shape p) (boardState s) (boardState s ! a)) =
                  shape_area (shape p))"
  by (auto simp: canPlay_full_def canPlay_def Let_def split: option.split)

text \<open>On a well-formed board, an id inside the columns is found exactly when a cell sits at
  that grid position.\<close>

lemma cell_ref_at_found_wf:
  assumes wf: "wf_board b" and c: "0 \<le> c" "c < boardCols"
  shows "cell_ref_at b r c \<noteq> None \<longleftrightarrow> (\<exists>i < length b. rowIndex (b ! i) = r \<and> colIndex (b ! i) = c)"
proof
  assume "cell_ref_at b r c \<noteq> None"
  then obtain i where ref: "cell_ref_at b r c = Some i" by blast
  then have "i < length b"
    unfolding cell_ref_at_wf [OF wf] by simp
  with cell_ref_at_pos [OF wf ref c] show "\<exists>i < length b. rowIndex (b ! i) = r \<and> colIndex (b ! i) = c"
    by blast
next
  assume "\<exists>i < length b. rowIndex (b ! i) = r \<and> colIndex (b ! i) = c"
  then obtain i where i: "i < length b" "rowIndex (b ! i) = r" "colIndex (b ! i) = c" by blast
  then have "cell_id (b ! i) = grid_id r c"
    using wf_board_nth [OF wf i(1)] by (simp add: wf_cell_def)
  with i(1) have "cell_ref_at b r c = Some i"
    unfolding cell_ref_at_wf [OF wf] by simp
  then show "cell_ref_at b r c \<noteq> None" by simp
qed

text \<open>On a well-formed board no two cells share a grid position.\<close>

lemma wf_board_pos_inj:
  assumes wf: "wf_board b" and ij: "i < length b" "j < length b"
    and pos: "rowIndex (b ! i) = rowIndex (b ! j)" "colIndex (b ! i) = colIndex (b ! j)"
  shows "i = j"
proof -
  have "cell_id (b ! i) = cell_id (b ! j)"
    using wf_board_nth [OF wf ij(1)] wf_board_nth [OF wf ij(2)] pos by (simp add: wf_cell_def)
  then have "map cell_id b ! i = map cell_id b ! j"
    using ij by simp
  then show ?thesis
    using nth_eq_iff_index_eq [OF wf_board_distinct [OF wf], of i j] ij by simp
qed

section \<open>The strict rule against the code's rule\<close>

text \<open>C22: the strict rule meets the geometric contract. On a well-formed board, with the
  anchor found and a shape inside the columns, \<open>canPlay_full\<close> holds exactly when every
  1-cell of the shape, shifted by the anchor's grid position, lands on a board cell that is
  neither occupied nor blocked.\<close>

theorem canPlay_full_geometry:
  assumes wf: "wf_board (boardState s)"
    and anchor: "find_anchor (boardState s) sid = Some a"
    and fit: "fits_right (shape p) (colIndex (boardState s ! a))"
  shows "canPlay_full s p sid \<longleftrightarrow> placement_ok (boardState s) (boardState s ! a) (shape p)"
proof -
  let ?b = "boardState s" and ?A = "boardState s ! a" and ?sh = "shape p"
  have a0: "0 \<le> colIndex ?A"
    using wf_board_nth [OF wf find_anchor_less [OF anchor]] by (simp add: wf_cell_def)
  have cols: "0 \<le> colIndex ?A + int dc \<and> colIndex ?A + int dc < boardCols"
    if "(dr, dc) \<in> shape_cells ?sh" for dr dc
    using a0 fits_rightD [OF fit that] by simp
  note geo = cover_geometry [OF wf a0 fit]
  have found: "(\<forall>(dr, dc) \<in> shape_cells ?sh.
        cell_ref_at ?b (rowIndex ?A + int dr) (colIndex ?A + int dc) \<noteq> None) \<longleftrightarrow>
      (\<forall>(dr, dc) \<in> shape_cells ?sh. \<exists>i < length ?b.
        rowIndex (?b ! i) = rowIndex ?A + int dr \<and> colIndex (?b ! i) = colIndex ?A + int dc)"
  proof (intro ball_cong refl)
    fix x assume x: "x \<in> shape_cells ?sh"
    obtain dr dc where xe: "x = (dr, dc)" by (cases x)
    show "(case x of (dr, dc) \<Rightarrow> cell_ref_at ?b (rowIndex ?A + int dr) (colIndex ?A + int dc) \<noteq> None) \<longleftrightarrow>
        (case x of (dr, dc) \<Rightarrow> \<exists>i < length ?b.
          rowIndex (?b ! i) = rowIndex ?A + int dr \<and> colIndex (?b ! i) = colIndex ?A + int dc)"
      using x cell_ref_at_found_wf [OF wf conjunct1 [OF cols] conjunct2 [OF cols]]
      unfolding xe by simp
  qed
  have free: "list_all (\<lambda>i. \<not> blocks_piece (?b ! i)) (findOccupiedCells ?sh ?b ?A) \<longleftrightarrow>
      (\<forall>i < length ?b. (\<exists>(dr, dc) \<in> shape_cells ?sh.
        rowIndex (?b ! i) = rowIndex ?A + int dr \<and> colIndex (?b ! i) = colIndex ?A + int dc)
        \<longrightarrow> \<not> blocks_piece (?b ! i))"
    unfolding list_all_iff using geo by blast
  have "canPlay_full s p sid \<longleftrightarrow>
      (\<forall>i < length ?b. (\<exists>(dr, dc) \<in> shape_cells ?sh.
        rowIndex (?b ! i) = rowIndex ?A + int dr \<and> colIndex (?b ! i) = colIndex ?A + int dc)
        \<longrightarrow> \<not> blocks_piece (?b ! i)) \<and>
      (\<forall>(dr, dc) \<in> shape_cells ?sh. \<exists>i < length ?b.
        rowIndex (?b ! i) = rowIndex ?A + int dr \<and> colIndex (?b ! i) = colIndex ?A + int dc)"
      (is "_ \<longleftrightarrow> ?L")
    unfolding canPlay_full_split canPlay_def anchor findOccupiedCells_complete_iff
    using free found by simp
  also have "\<dots> \<longleftrightarrow> placement_ok ?b ?A ?sh"
  proof
    assume l: "?L"
    show "placement_ok ?b ?A ?sh"
      unfolding placement_ok_def
    proof (intro ballI, clarify)
      fix dr dc assume sc: "(dr, dc) \<in> shape_cells ?sh"
      with l obtain i where i: "i < length ?b" "rowIndex (?b ! i) = rowIndex ?A + int dr"
          "colIndex (?b ! i) = colIndex ?A + int dc"
        by blast
      with l sc have "\<not> blocks_piece (?b ! i)" by blast
      with i show "\<exists>i < length ?b. rowIndex (?b ! i) = rowIndex ?A + int dr \<and>
          colIndex (?b ! i) = colIndex ?A + int dc \<and> \<not> blocks_piece (?b ! i)" by blast
    qed
  next
    assume r: "placement_ok ?b ?A ?sh"
    show "?L"
    proof (intro conjI allI impI)
      fix i assume i: "i < length ?b" and g: "\<exists>(dr, dc) \<in> shape_cells ?sh.
        rowIndex (?b ! i) = rowIndex ?A + int dr \<and> colIndex (?b ! i) = colIndex ?A + int dc"
      then obtain dr dc where sc: "(dr, dc) \<in> shape_cells ?sh"
        and p: "rowIndex (?b ! i) = rowIndex ?A + int dr" "colIndex (?b ! i) = colIndex ?A + int dc"
        by blast
      from r sc obtain j where j: "j < length ?b" "rowIndex (?b ! j) = rowIndex ?A + int dr"
          "colIndex (?b ! j) = colIndex ?A + int dc" "\<not> blocks_piece (?b ! j)"
        unfolding placement_ok_def by blast
      have "i = j"
        using wf_board_pos_inj [OF wf i j(1)] p j(2,3) by simp
      with j(4) show "\<not> blocks_piece (?b ! i)" by simp
    next
      show "\<forall>(dr, dc) \<in> shape_cells ?sh. \<exists>i < length ?b.
          rowIndex (?b ! i) = rowIndex ?A + int dr \<and> colIndex (?b ! i) = colIndex ?A + int dc"
        using r unfolding placement_ok_def by blast
    qed
  qed
  finally show ?thesis .
qed

theorem canPlay_full_geometry_witness:
  "wf_board (boardState \<lparr>initBoardState = demo_board, boardState = demo_board\<rparr>) \<and>
   find_anchor (boardState \<lparr>initBoardState = demo_board, boardState = demo_board\<rparr>) 1 = Some 0 \<and>
   fits_right (shape \<lparr>piece_id = 7, shape = [[1, 1]], anchorCell = None\<rparr>)
     (colIndex (boardState \<lparr>initBoardState = demo_board, boardState = demo_board\<rparr> ! 0)) \<and>
   canPlay_full \<lparr>initBoardState = demo_board, boardState = demo_board\<rparr>
     \<lparr>piece_id = 7, shape = [[1, 1]], anchorCell = None\<rparr> 1 \<and>
   placement_ok demo_board (demo_board ! 0) [[1, 1]]"
proof -
  let ?s = "\<lparr>initBoardState = demo_board, boardState = demo_board\<rparr>"
  let ?p = "\<lparr>piece_id = 7, shape = [[1, 1]], anchorCell = None\<rparr>"
  have h: "wf_board (boardState ?s)" "find_anchor (boardState ?s) 1 = Some 0"
    "fits_right (shape ?p) (colIndex (boardState ?s ! 0))"
    using wf_demo_board by (simp, code_simp, code_simp)
  have full: "canPlay_full ?s ?p 1"
    by code_simp
  show ?thesis
    using h full canPlay_full_geometry [OF h] by simp
qed

end
