(* ===== verification/JsDate.thy ===== *)
theory JsDate
  imports Winner
begin

text \<open>
  What \<open>new Date(solveDate)\<close> and the getters \<open>getDay()\<close>, \<open>getMonth()\<close>,
  \<open>getDate()\<close> of \<open>checkWinner\<close> (\<open>src/src/stores/game.ts\<close>, lines 97--100) compute,
  after the ECMAScript specification of \<open>Date\<close> (section 21.4.1: time values in
  milliseconds since the epoch, \<open>Day\<close>, \<open>DayFromYear\<close>, \<open>YearFromTime\<close>,
  \<open>MonthFromTime\<close>, \<open>DateFromTime\<close>, \<open>WeekDay\<close>, \<open>MakeDay\<close>, \<open>TimeClip\<close>,
  \<open>LocalTime\<close>). Time values are \<open>int\<close> (they are integral and far below \<open>2^53\<close>);
  \<open>NaN\<close> is \<open>None\<close>. The local time zone is a fixed offset \<open>tz\<close> in milliseconds
  (daylight saving is not modelled). The argument of the constructor is a date-only ISO
  string \<open>YYYY-MM-DD\<close> (read as UTC midnight, as the specification prescribes), an ISO
  date-time string without offset (read as local time), a \<open>Date\<close> object (its time value
  is copied), or a string no engine parses.

  \<open>YearFromTime\<close> is specified as the largest year whose first day is not after the given
  day; \<open>year_search\<close> computes it by walking one year at a time from 1970, with fuel
  enough for the distance (at most one year per 365 days, plus two steps).
\<close>

section \<open>Definitions\<close>

definition msPerDay :: int where
  "msPerDay = 86400000"

definition DaysInYear :: "int \<Rightarrow> int" where
  "DaysInYear y = (if y mod 4 \<noteq> 0 then 365 else if y mod 100 \<noteq> 0 then 366
                   else if y mod 400 \<noteq> 0 then 365 else 366)"

definition InLeapYear :: "int \<Rightarrow> bool" where
  "InLeapYear y \<longleftrightarrow> DaysInYear y = 366"

definition DayFromYear :: "int \<Rightarrow> int" where
  "DayFromYear y = 365 * (y - 1970) + (y - 1969) div 4 - (y - 1901) div 100 + (y - 1601) div 400"

text \<open>One step of the walk towards the year that contains day \<open>d\<close>.\<close>

fun year_search :: "nat \<Rightarrow> int \<Rightarrow> int \<Rightarrow> int option" where
  "year_search 0 d y = None"
| "year_search (Suc fuel) d y =
     (if d < DayFromYear y then year_search fuel d (y - 1)
      else if DayFromYear (y + 1) \<le> d then year_search fuel d (y + 1)
      else Some y)"

definition year_fuel :: "int \<Rightarrow> nat" where
  "year_fuel d = nat (\<bar>d\<bar> div 365) + 2"

definition YearFromDay :: "int \<Rightarrow> int option" where
  "YearFromDay d = year_search (year_fuel d) d 1970"

text \<open>First day of each month within a year, and the month and date of a day within the
  year (\<open>MonthFromTime\<close>, \<open>DateFromTime\<close>).\<close>

definition month_starts :: "bool \<Rightarrow> int list" where
  "month_starts leap = (let l = (if leap then 1 else 0) in
     [0, 31, 59 + l, 90 + l, 120 + l, 151 + l, 181 + l, 212 + l, 243 + l, 273 + l, 304 + l, 334 + l])"

definition month_days :: "bool \<Rightarrow> int list" where
  "month_days leap = [31, if leap then 29 else 28, 31, 30, 31, 30, 31, 31, 30, 31, 30, 31]"

text \<open>The chain of range tests of \<open>MonthFromTime\<close>: how many months have started by
  day \<open>k\<close> of the year.\<close>

fun month_index :: "int list \<Rightarrow> int \<Rightarrow> nat" where
  "month_index [] k = 0"
| "month_index (s # ss) k = (if s \<le> k then Suc (month_index ss k) else 0)"

definition MonthFromDayInYear :: "bool \<Rightarrow> int \<Rightarrow> int" where
  "MonthFromDayInYear leap k = int (month_index (month_starts leap) k) - 1"

definition DateFromDayInYear :: "bool \<Rightarrow> int \<Rightarrow> int" where
  "DateFromDayInYear leap k = k - month_starts leap ! nat (MonthFromDayInYear leap k) + 1"

definition WeekDay :: "int \<Rightarrow> int" where
  "WeekDay d = (d + 4) mod 7"

text \<open>The three getters on a time value, in the local time zone (\<open>LocalTime(t) = t + tz\<close>).
  A time value \<open>NaN\<close> gives \<open>NaN\<close> for all three.\<close>

definition date_of_time :: "int option \<Rightarrow> int \<Rightarrow> js_date" where
  "date_of_time tv tz =
     (case tv of
        None \<Rightarrow> Invalid_Date
      | Some t \<Rightarrow>
          (let d = (t + tz) div msPerDay in
           case YearFromDay d of
             None \<Rightarrow> Invalid_Date
           | Some y \<Rightarrow>
               (let k = d - DayFromYear y; leap = InLeapYear y in
                Calendar_Date (WeekDay d) (MonthFromDayInYear leap k) (DateFromDayInYear leap k))))"

text \<open>\<open>MakeDay(year, month, date)\<close>: months past December roll into the next year, dates
  past the month's end roll into the next month.\<close>

definition MakeDay :: "int \<Rightarrow> int \<Rightarrow> int \<Rightarrow> int" where
  "MakeDay year month date =
     (let ym = year + month div 12; mn = month mod 12 in
      DayFromYear ym + month_starts (InLeapYear ym) ! nat mn + date - 1)"

definition TimeClip :: "int \<Rightarrow> int option" where
  "TimeClip t = (if \<bar>t\<bar> \<le> 8640000000000000 then Some t else None)"

datatype date_arg =
    Date_Only_String int int int
  | Local_Date_Time_String int int int int int
  | Date_Object "int option"
  | Unparsable_String

text \<open>The element ranges of the ISO format (four-digit year, month 01--12, day 01--31).\<close>

definition iso_date_ok :: "int \<Rightarrow> int \<Rightarrow> int \<Rightarrow> bool" where
  "iso_date_ok y m d \<longleftrightarrow> 0 \<le> y \<and> y \<le> 9999 \<and> 1 \<le> m \<and> m \<le> 12 \<and> 1 \<le> d \<and> d \<le> 31"

text \<open>\<open>new Date(solveDate)\<close> (line 97): the time value of the new object.\<close>

definition new_Date :: "date_arg \<Rightarrow> int \<Rightarrow> int option" where
  "new_Date arg tz =
     (case arg of
        Date_Only_String y m d \<Rightarrow>
          if iso_date_ok y m d then TimeClip (MakeDay y (m - 1) d * msPerDay) else None
      | Local_Date_Time_String y m d hh mm \<Rightarrow>
          if iso_date_ok y m d \<and> 0 \<le> hh \<and> 0 \<le> mm \<and> mm \<le> 59 \<and> (hh < 24 \<or> hh = 24 \<and> mm = 0)
          then TimeClip (MakeDay y (m - 1) d * msPerDay + (hh * 60 + mm) * 60000 - tz)
          else None
      | Date_Object tv \<Rightarrow> tv
      | Unparsable_String \<Rightarrow> None)"

text \<open>\<open>checkWinner(solveDate)\<close> from the argument, in a time zone \<open>tz\<close>.\<close>

definition checkWinner_arg :: "game_state \<Rightarrow> date_arg \<Rightarrow> int \<Rightarrow> bool" where
  "checkWinner_arg s solveDate tz = checkWinner s (date_of_time (new_Date solveDate tz) tz)"

section \<open>The year of a day\<close>

lemma div_step:
  "(a + 1) div (k::int) = a div k + (if a mod k = k - 1 then 1 else 0)" if "1 < k"
proof -
  have "(a + 1) div k = a div k + 1 div k + (a mod k + 1 mod k) div k"
    by (rule div_add1_eq)
  moreover have "1 div k = 0" "1 mod k = 1" using that by simp_all
  moreover have "(a mod k + 1) div k = (if a mod k = k - 1 then 1 else 0)"
  proof -
    have m: "0 \<le> a mod k" "a mod k < k" using that by simp_all
    show ?thesis
    proof (cases "a mod k = k - 1")
      case True then show ?thesis using that by simp
    next
      case False with m have "0 \<le> a mod k + 1" "a mod k + 1 < k" by simp_all
      with False show ?thesis by (simp add: div_pos_pos_trivial)
    qed
  qed
  ultimately show ?thesis by simp
qed

lemma mod_last_iff_dvd:
  "a mod k = k - 1 \<longleftrightarrow> k dvd (a + 1)" if "(0::int) < k"
proof -
  have m: "0 \<le> a mod k" "a mod k < k" using that by simp_all
  have "(a + 1) mod k = (a mod k + 1) mod k" by (simp add: mod_add_left_eq)
  moreover have "(a mod k + 1) mod k = 0 \<longleftrightarrow> a mod k = k - 1"
  proof (cases "a mod k = k - 1")
    case True then show ?thesis by simp
  next
    case False with m have "0 < a mod k + 1" "a mod k + 1 < k" by simp_all
    with False show ?thesis by simp
  qed
  ultimately show ?thesis by (simp add: dvd_eq_mod_eq_0)
qed

lemma dvd_shift: "(k::int) dvd c \<Longrightarrow> k dvd (y - c) \<longleftrightarrow> k dvd y"
  by (metis dvd_diff diff_diff_cancel dvd_add add_diff_cancel_left' diff_add_cancel)

text \<open>\<open>DayFromYear\<close> counts the days of the years before: one year later is
  \<open>DaysInYear\<close> days later.\<close>

lemma DayFromYear_Suc: "DayFromYear (y + 1) = DayFromYear y + DaysInYear y"
proof -
  have a: "(y + 1 - 1969) div 4 = (y - 1969) div 4 + (if 4 dvd y then 1 else 0)"
    using div_step [of 4 "y - 1969"] mod_last_iff_dvd [of 4 "y - 1969"] dvd_shift [of 4 1968 y]
    by (simp add: algebra_simps)
  have b: "(y + 1 - 1901) div 100 = (y - 1901) div 100 + (if 100 dvd y then 1 else 0)"
    using div_step [of 100 "y - 1901"] mod_last_iff_dvd [of 100 "y - 1901"] dvd_shift [of 100 1900 y]
    by (simp add: algebra_simps)
  have c: "(y + 1 - 1601) div 400 = (y - 1601) div 400 + (if 400 dvd y then 1 else 0)"
    using div_step [of 400 "y - 1601"] mod_last_iff_dvd [of 400 "y - 1601"] dvd_shift [of 400 1600 y]
    by (simp add: algebra_simps)
  have d: "4 dvd y" if "100 dvd y" using that by (rule dvd_trans [rotated]) simp
  have e: "100 dvd y" if "400 dvd y" using that by (rule dvd_trans [rotated]) simp
  show ?thesis
    unfolding DayFromYear_def DaysInYear_def a b c dvd_eq_mod_eq_0 [symmetric]
    using d e by auto
qed

lemma DaysInYear_bounds: "365 \<le> DaysInYear y \<and> DaysInYear y \<le> 366"
  by (simp add: DaysInYear_def)

lemma DayFromYear_Suc_ge: "DayFromYear y + 365 \<le> DayFromYear (y + 1)"
  using DayFromYear_Suc [of y] DaysInYear_bounds [of y] by simp

lemma DayFromYear_gap: "DayFromYear y + 365 * int n \<le> DayFromYear (y + int n)"
proof (induction n)
  case 0
  then show ?case by simp
next
  case (Suc n)
  have "DayFromYear (y + int n) + 365 \<le> DayFromYear (y + int n + 1)"
    by (rule DayFromYear_Suc_ge)
  with Suc show ?case by (simp add: algebra_simps)
qed

lemma DayFromYear_less: "y < y' \<Longrightarrow> DayFromYear y < DayFromYear y'"
  using DayFromYear_gap [of y "nat (y' - y)"] by simp

lemma DayFromYear_le_iff: "DayFromYear y \<le> DayFromYear y' \<longleftrightarrow> y \<le> y'"
proof
  assume "DayFromYear y \<le> DayFromYear y'"
  then show "y \<le> y'"
    using DayFromYear_less [of y' y] by linarith
next
  assume "y \<le> y'"
  then show "DayFromYear y \<le> DayFromYear y'"
    using DayFromYear_less [of y y'] by (cases "y = y'") simp_all
qed

lemma DayFromYear_1970: "DayFromYear 1970 = 0"
  by (simp add: DayFromYear_def)

lemma div_365_minus: "(a - 365) div 365 = a div 365 - (1::int)"
  using div_mult_self1 [of 365 a "-1"] by simp

lemma year_search_Some:
  "year_search f d y = Some Y \<Longrightarrow> DayFromYear Y \<le> d \<and> d < DayFromYear (Y + 1)"
  by (induction f d y rule: year_search.induct) (auto split: if_splits)

text \<open>Walking up from a year that starts on or before \<open>d\<close>: one step per 365 days.\<close>

lemma year_search_up:
  "DayFromYear y \<le> d \<Longrightarrow> nat ((d - DayFromYear y) div 365) < f \<Longrightarrow> year_search f d y \<noteq> None"
proof (induction f arbitrary: y)
  case 0
  then show ?case by simp
next
  case (Suc f)
  show ?case
  proof (cases "DayFromYear (y + 1) \<le> d")
    case True
    have "d - DayFromYear (y + 1) \<le> (d - DayFromYear y) - 365"
      using DayFromYear_Suc_ge [of y] by simp
    then have "(d - DayFromYear (y + 1)) div 365 \<le> ((d - DayFromYear y) - 365) div 365"
      by (rule zdiv_mono1) simp
    then have le: "(d - DayFromYear (y + 1)) div 365 \<le> (d - DayFromYear y) div 365 - 1"
      by (simp add: div_365_minus)
    have "0 \<le> (d - DayFromYear (y + 1)) div 365"
      using True by simp
    with le Suc.prems(2) have "nat ((d - DayFromYear (y + 1)) div 365) < f"
      by linarith
    with True have "year_search f d (y + 1) \<noteq> None"
      by (rule Suc.IH)
    with True Suc.prems(1) show ?thesis by simp
  next
    case False
    with Suc.prems(1) show ?thesis by simp
  qed
qed

text \<open>Walking down from a year that starts after \<open>d\<close>: one step per 365 days, and one
  more to stop.\<close>

lemma year_search_down:
  "d < DayFromYear y \<Longrightarrow> nat ((DayFromYear y - d - 1) div 365) + 1 < f \<Longrightarrow> year_search f d y \<noteq> None"
proof (induction f arbitrary: y)
  case 0
  then show ?case by simp
next
  case (Suc f)
  have step: "year_search (Suc f) d y = year_search f d (y - 1)"
    using Suc.prems(1) by simp
  show ?case
  proof (cases "d < DayFromYear (y - 1)")
    case True
    have "DayFromYear (y - 1) + 365 \<le> DayFromYear y"
      using DayFromYear_Suc_ge [of "y - 1"] by simp
    then have "DayFromYear (y - 1) - d - 1 \<le> (DayFromYear y - d - 1) - 365"
      by simp
    then have "(DayFromYear (y - 1) - d - 1) div 365 \<le> ((DayFromYear y - d - 1) - 365) div 365"
      by (rule zdiv_mono1) simp
    then have le: "(DayFromYear (y - 1) - d - 1) div 365 \<le> (DayFromYear y - d - 1) div 365 - 1"
      by (simp add: div_365_minus)
    have "0 \<le> (DayFromYear (y - 1) - d - 1) div 365"
      using True by simp
    with le Suc.prems(2) have "nat ((DayFromYear (y - 1) - d - 1) div 365) + 1 < f"
      by linarith
    with True have "year_search f d (y - 1) \<noteq> None"
      by (rule Suc.IH)
    with step show ?thesis by simp
  next
    case False
    from Suc.prems(2) obtain f' where f: "f = Suc f'"
      by (cases f) simp_all
    have "year_search f d (y - 1) = Some (y - 1)"
      using False Suc.prems(1) unfolding f by simp
    with step show ?thesis by simp
  qed
qed

lemma YearFromDay_found: "YearFromDay d \<noteq> None"
proof (cases "0 \<le> d")
  case True
  have "nat ((d - DayFromYear 1970) div 365) < year_fuel d"
    using True by (simp add: DayFromYear_1970 year_fuel_def)
  with True show ?thesis
    unfolding YearFromDay_def by (intro year_search_up) (simp_all add: DayFromYear_1970)
next
  case False
  have "(- d - 1) div 365 \<le> \<bar>d\<bar> div 365"
    using False by (intro zdiv_mono1) simp_all
  then have "nat ((DayFromYear 1970 - d - 1) div 365) + 1 < year_fuel d"
    using False by (simp add: DayFromYear_1970 year_fuel_def)
  with False show ?thesis
    unfolding YearFromDay_def by (intro year_search_down) (simp_all add: DayFromYear_1970)
qed

lemma YearFromDay_eq_iff:
  "YearFromDay d = Some y \<longleftrightarrow> DayFromYear y \<le> d \<and> d < DayFromYear (y + 1)"
proof
  assume "YearFromDay d = Some y"
  then show "DayFromYear y \<le> d \<and> d < DayFromYear (y + 1)"
    unfolding YearFromDay_def by (rule year_search_Some)
next
  assume y: "DayFromYear y \<le> d \<and> d < DayFromYear (y + 1)"
  obtain Y where Y: "YearFromDay d = Some Y"
    using YearFromDay_found by blast
  then have "DayFromYear Y \<le> d \<and> d < DayFromYear (Y + 1)"
    unfolding YearFromDay_def by (rule year_search_Some)
  with y have "Y = y"
    using DayFromYear_le_iff [of "y + 1" Y] DayFromYear_le_iff [of "Y + 1" y] by linarith
  with Y show "YearFromDay d = Some y" by simp
qed

section \<open>The month and date of a day in the year\<close>

lemma month_index_Suc_iff:
  assumes "sorted_wrt (<) ss"
  shows "month_index ss k = Suc m \<longleftrightarrow>
           m < length ss \<and> ss ! m \<le> k \<and> (Suc m < length ss \<longrightarrow> k < ss ! Suc m)"
  using assms
proof (induction ss arbitrary: m)
  case Nil
  then show ?case by simp
next
  case (Cons s ss)
  have sorted: "sorted_wrt (<) ss" and lt: "\<forall>x \<in> set ss. s < x"
    using Cons.prems by simp_all
  show ?case
  proof (cases m)
    case 0
    have "month_index ss k = 0 \<longleftrightarrow> (0 < length ss \<longrightarrow> k < ss ! 0)"
      by (cases ss) auto
    with 0 show ?thesis by auto
  next
    case (Suc m')
    have IH: "month_index ss k = Suc m' \<longleftrightarrow>
        m' < length ss \<and> ss ! m' \<le> k \<and> (Suc m' < length ss \<longrightarrow> k < ss ! Suc m')"
      using Cons.IH [OF sorted] .
    have "s \<le> k" if "m' < length ss" "ss ! m' \<le> k"
      using lt that nth_mem [OF that(1)] by fastforce
    with IH Suc show ?thesis by auto
  qed
qed

lemma month_starts_sorted: "sorted_wrt (<) (month_starts leap)"
  by (cases leap) (simp_all add: month_starts_def)

lemma length_month_starts [simp]: "length (month_starts leap) = 12"
  by (simp add: month_starts_def Let_def)

lemma month_starts_0 [simp]: "month_starts leap ! 0 = 0"
  by (simp add: month_starts_def Let_def)

lemma month_starts_next:
  "m < 11 \<Longrightarrow> month_starts leap ! Suc m = month_starts leap ! m + month_days leap ! m"
  by (cases leap) (auto simp: month_starts_def month_days_def less_Suc_eq numeral_eq_Suc)

lemma month_starts_end:
  "month_starts leap ! 11 + month_days leap ! 11 = (if leap then 366 else 365)"
  by (simp add: month_starts_def month_days_def)

lemma month_days_le: "m < 12 \<Longrightarrow> month_days leap ! m \<le> 31"
  by (auto simp: month_days_def less_Suc_eq numeral_eq_Suc)

lemma DaysInYear_leap: "DaysInYear y = (if InLeapYear y then 366 else 365)"
  using DaysInYear_bounds [of y] by (auto simp: InLeapYear_def)

text \<open>A day inside month \<open>m\<close> of the year is read back as month \<open>m\<close> and its date.\<close>

lemma month_date_of_day:
  assumes m: "m < 12" and dd: "1 \<le> dd" "dd \<le> month_days leap ! m"
  shows "MonthFromDayInYear leap (month_starts leap ! m + dd - 1) = int m \<and>
         DateFromDayInYear leap (month_starts leap ! m + dd - 1) = dd"
proof -
  let ?k = "month_starts leap ! m + dd - 1"
  have "Suc m < 12 \<longrightarrow> ?k < month_starts leap ! Suc m"
    using dd month_starts_next [of m leap] by simp
  with m dd have "month_index (month_starts leap) ?k = Suc m"
    by (simp add: month_index_Suc_iff [OF month_starts_sorted])
  then show ?thesis
    by (simp add: MonthFromDayInYear_def DateFromDayInYear_def)
qed

text \<open>Every day of the year lies in one of the twelve months.\<close>

lemma day_in_some_month:
  assumes "0 \<le> k" and "k < (if leap then 366 else 365)"
  shows "\<exists>m < 12. \<exists>dd. 1 \<le> dd \<and> dd \<le> month_days leap ! m \<and> k = month_starts leap ! m + dd - 1"
proof -
  have "month_index (month_starts leap) k \<noteq> 0"
    using assms(1) by (simp add: month_starts_def Let_def)
  then obtain m where mi: "month_index (month_starts leap) k = Suc m"
    using not0_implies_Suc by blast
  then have m: "m < 12" and lo: "month_starts leap ! m \<le> k"
    and hi: "Suc m < 12 \<longrightarrow> k < month_starts leap ! Suc m"
    by (simp_all add: month_index_Suc_iff [OF month_starts_sorted])
  have "k < month_starts leap ! m + month_days leap ! m"
  proof (cases "m < 11")
    case True
    with hi month_starts_next [OF True] show ?thesis by simp
  next
    case False
    with m have "m = 11" by simp
    with assms(2) month_starts_end [of leap] show ?thesis by simp
  qed
  with m lo show ?thesis
    by (intro exI [of _ m] conjI exI [of _ "k - month_starts leap ! m + 1"]) simp_all
qed

lemma month_starts_nonneg: "m < 12 \<Longrightarrow> 0 \<le> month_starts leap ! m"
  by (cases leap) (auto simp: month_starts_def less_Suc_eq numeral_eq_Suc)

lemma month_starts_le: "m < 12 \<Longrightarrow> month_starts leap ! m \<le> 366"
  by (cases leap) (auto simp: month_starts_def less_Suc_eq numeral_eq_Suc)

lemma month_end_le:
  "m < 12 \<Longrightarrow> month_starts leap ! m + month_days leap ! m \<le> (if leap then 366 else 365)"
  by (cases leap) (auto simp: month_starts_def month_days_def less_Suc_eq numeral_eq_Suc)

section \<open>Reading a time value\<close>

text \<open>When the local day of a time value is day \<open>dd\<close> of month \<open>m\<close> of year \<open>y\<close>, the
  getters read that month and date.\<close>

lemma date_of_time_day:
  assumes m: "m < 12" and dd: "1 \<le> dd" "dd \<le> month_days (InLeapYear y) ! m"
    and day: "(t + tz) div msPerDay = DayFromYear y + month_starts (InLeapYear y) ! m + dd - 1"
  shows "date_of_time (Some t) tz = Calendar_Date (WeekDay ((t + tz) div msPerDay)) (int m) dd"
proof -
  let ?D = "(t + tz) div msPerDay" and ?l = "InLeapYear y"
  have "DayFromYear y \<le> ?D"
    using day dd month_starts_nonneg [OF m, of ?l] by simp
  moreover have "?D < DayFromYear (y + 1)"
    using day dd month_end_le [OF m, of ?l] DayFromYear_Suc [of y] DaysInYear_leap [of y] by simp
  ultimately have "YearFromDay ?D = Some y"
    by (simp add: YearFromDay_eq_iff)
  moreover have "?D - DayFromYear y = month_starts ?l ! m + dd - 1"
    using day by simp
  ultimately show ?thesis
    using month_date_of_day [OF m dd] by (simp add: date_of_time_def Let_def)
qed

lemma MakeDay_valid:
  assumes "1 \<le> m" "m \<le> 12"
  shows "MakeDay y (m - 1) d = DayFromYear y + month_starts (InLeapYear y) ! nat (m - 1) + d - 1"
proof -
  have "(m - 1) div 12 = 0" "(m - 1) mod 12 = m - 1"
    using assms by simp_all
  then show ?thesis by (simp add: MakeDay_def Let_def)
qed

lemma MakeDay_range:
  assumes "0 \<le> y" "y \<le> 9999" "1 \<le> m" "m \<le> 12" "1 \<le> d" "d \<le> 31"
  shows "-719528 \<le> MakeDay y (m - 1) d \<and> MakeDay y (m - 1) d \<le> 2932929"
proof -
  have m: "nat (m - 1) < 12" using assms(3,4) by simp
  have lo: "DayFromYear 0 \<le> DayFromYear y" and hi: "DayFromYear y \<le> DayFromYear 9999"
    using assms(1,2) by (simp_all add: DayFromYear_le_iff)
  have "DayFromYear 0 = -719528" "DayFromYear 9999 = 2932532"
    by (simp_all add: DayFromYear_def)
  moreover have "0 \<le> month_starts (InLeapYear y) ! nat (m - 1)"
    "month_starts (InLeapYear y) ! nat (m - 1) \<le> 366"
    using month_starts_nonneg [OF m] month_starts_le [OF m] by simp_all
  ultimately show ?thesis
    using lo hi assms(5,6) MakeDay_valid [OF assms(3,4), of y d] by simp
qed

text \<open>Time values of ISO dates in years 0--9999, shifted by less than a day either way,
  are inside the range \<open>TimeClip\<close> keeps.\<close>

lemma TimeClip_MakeDay_shift:
  assumes "iso_date_ok y m d" and "\<bar>off\<bar> \<le> 2 * msPerDay"
  shows "TimeClip (MakeDay y (m - 1) d * msPerDay + off) = Some (MakeDay y (m - 1) d * msPerDay + off)"
  using MakeDay_range [of y m d] assms
  by (simp add: TimeClip_def msPerDay_def abs_le_iff iso_date_ok_def)

lemma TimeClip_MakeDay:
  assumes "0 \<le> y" "y \<le> 9999" "1 \<le> m" "m \<le> 12" "1 \<le> d" "d \<le> 31"
  shows "TimeClip (MakeDay y (m - 1) d * msPerDay) = Some (MakeDay y (m - 1) d * msPerDay)"
  using TimeClip_MakeDay_shift [of y m d 0] assms by (simp add: iso_date_ok_def msPerDay_def)

lemma day_of_shifted:
  "(D * msPerDay + tz) div msPerDay = D + tz div msPerDay"
  using div_mult_self1 [of msPerDay tz D] by (simp add: msPerDay_def add.commute mult.commute)

lemma tz_west_div: "- msPerDay \<le> tz \<Longrightarrow> tz < 0 \<Longrightarrow> tz div msPerDay = -1"
proof -
  assume lo: "- msPerDay \<le> tz" and hi: "tz < 0"
  have "tz div msPerDay = (tz + msPerDay + (-1) * msPerDay) div msPerDay" by simp
  also have "\<dots> = (tz + msPerDay) div msPerDay - 1"
    by (subst div_mult_self1) (simp_all add: msPerDay_def)
  also have "(tz + msPerDay) div msPerDay = 0"
    using lo hi by (intro div_pos_pos_trivial) (simp_all add: msPerDay_def)
  finally show ?thesis by simp
qed

lemma tz_east_div: "0 \<le> tz \<Longrightarrow> tz < msPerDay \<Longrightarrow> tz div msPerDay = 0"
  by (rule div_pos_pos_trivial)

lemma new_Date_date_only:
  "iso_date_ok y m d \<Longrightarrow> new_Date (Date_Only_String y m d) tz = Some (MakeDay y (m - 1) d * msPerDay)"
  by (simp add: new_Date_def iso_date_ok_def TimeClip_MakeDay)

section \<open>Adequacy of the Date model\<close>

text \<open>These three lemmas check the model of the runtime against ECMAScript, not the
  program: the fuel of the year search is enough, the search is \<open>YearFromTime\<close>, and the
  calendar reads back what \<open>MakeDay\<close> builds. The properties of \<open>game.ts\<close> below
  rest on them.\<close>

text \<open>Termination of the year search. For every day number, the walk from 1970
  returns within its fuel (one step per 365 days of distance, plus two), and the year it
  returns contains the day.\<close>

lemma YearFromDay_terminates:
  "\<exists>y. YearFromDay d = Some y \<and> DayFromYear y \<le> d \<and> d < DayFromYear (y + 1)"
proof -
  obtain y where "YearFromDay d = Some y"
    using YearFromDay_found by blast
  then show ?thesis
    using YearFromDay_eq_iff [of d y] by blast
qed

text \<open>The year search is \<open>YearFromTime\<close> of the ECMAScript specification: it
  returns \<open>y\<close> exactly when \<open>y\<close> is the largest year whose first day is not after the
  given day.\<close>

lemma YearFromDay_is_YearFromTime:
  "YearFromDay d = Some y \<longleftrightarrow> DayFromYear y \<le> d \<and> (\<forall>y'. DayFromYear y' \<le> d \<longrightarrow> y' \<le> y)"
proof -
  have "d < DayFromYear (y + 1) \<longleftrightarrow> (\<forall>y'. DayFromYear y' \<le> d \<longrightarrow> y' \<le> y)"
  proof
    assume "d < DayFromYear (y + 1)"
    then show "\<forall>y'. DayFromYear y' \<le> d \<longrightarrow> y' \<le> y"
      using DayFromYear_le_iff [of "y + 1"] by (metis add1_zle_eq linorder_not_le order_trans)
  next
    assume "\<forall>y'. DayFromYear y' \<le> d \<longrightarrow> y' \<le> y"
    then show "d < DayFromYear (y + 1)"
      by (metis linorder_not_le add1_zle_eq order_refl)
  qed
  then show ?thesis
    by (simp add: YearFromDay_eq_iff)
qed

text \<open>Round trip of the calendar. The time value that \<open>MakeDay\<close> builds for a
  date that exists (month 1--12, day within the month's length in that year) is read back,
  in UTC, as that month and date, on the weekday of its day number.\<close>

lemma MakeDay_roundtrip:
  assumes m: "1 \<le> m" "m \<le> 12" and d: "1 \<le> d" "d \<le> month_days (InLeapYear y) ! nat (m - 1)"
  shows "date_of_time (Some (MakeDay y (m - 1) d * msPerDay)) 0 =
           Calendar_Date (WeekDay (MakeDay y (m - 1) d)) (m - 1) d"
proof -
  have m': "nat (m - 1) < 12" using m by simp
  have "(MakeDay y (m - 1) d * msPerDay + 0) div msPerDay =
      DayFromYear y + month_starts (InLeapYear y) ! nat (m - 1) + d - 1"
    using MakeDay_valid [OF m, of y d] by (simp add: msPerDay_def)
  from date_of_time_day [OF m' d this] m show ?thesis
    by (simp add: msPerDay_def)
qed

text \<open>C23: the getters of a valid \<open>Date\<close> are in range: the weekday is 0--6, the month
  0--11 and the date 1--31, so \<open>dayName[day]\<close> and \<open>monthName[month]\<close> in
  \<open>checkWinner\<close> are never \<open>undefined\<close> for a date that parsed.\<close>

theorem date_of_time_range:
  assumes "date_of_time tv tz = Calendar_Date wd mo dt"
  shows "0 \<le> wd \<and> wd < 7 \<and> 0 \<le> mo \<and> mo < 12 \<and> 1 \<le> dt \<and> dt \<le> 31 \<and>
         js_at dayName wd \<noteq> None \<and> js_at monthName mo \<noteq> None"
proof -
  from assms obtain t where t: "tv = Some t"
    by (cases tv) (simp_all add: date_of_time_def)
  let ?D = "(t + tz) div msPerDay"
  obtain y where y: "YearFromDay ?D = Some y"
    using YearFromDay_found by blast
  let ?l = "InLeapYear y" and ?k = "?D - DayFromYear y"
  have "DayFromYear y \<le> ?D \<and> ?D < DayFromYear (y + 1)"
    using y by (simp add: YearFromDay_eq_iff)
  then have "0 \<le> ?k" "?k < (if ?l then 366 else 365)"
    using DayFromYear_Suc [of y] DaysInYear_leap [of y] by simp_all
  then obtain m dd where m: "m < 12" and dd: "1 \<le> dd" "dd \<le> month_days ?l ! m"
    and k: "?k = month_starts ?l ! m + dd - 1"
    using day_in_some_month by blast
  have "?D = DayFromYear y + month_starts ?l ! m + dd - 1"
    using k by simp
  from date_of_time_day [OF m dd this] assms t
  have eq: "wd = WeekDay ?D" "mo = int m" "dt = dd"
    by simp_all
  have "0 \<le> wd" "wd < 7"
    unfolding eq WeekDay_def by simp_all
  moreover have "dt \<le> 31"
    using eq(3) dd(2) month_days_le [OF m, of ?l] by simp
  ultimately show ?thesis
    using eq m dd by (simp add: js_at_def dayName_def monthName_def)
qed

theorem date_of_time_range_witness:
  "date_of_time (new_Date (Date_Only_String 2024 1 15) 0) 0 = Calendar_Date 1 0 15 \<and>
   js_at dayName 1 \<noteq> None \<and> js_at monthName 0 \<noteq> None"
proof -
  have h: "date_of_time (new_Date (Date_Only_String 2024 1 15) 0) 0 = Calendar_Date 1 0 15"
    by code_simp
  show ?thesis
    using h date_of_time_range [OF h] by simp
qed

text \<open>C24: a date-only string is read as the day before west of UTC. \<open>new Date("YYYY-MM-DD")\<close>
  is UTC midnight, and the getters \<open>checkWinner\<close> calls read local time: in every time zone
  behind UTC (offset between minus one day and zero), the 2nd to the last day of a month are
  read as the previous date of the same month, on the previous weekday.\<close>

theorem date_only_string_west:
  assumes ok: "iso_date_ok y m d" and d: "2 \<le> d" "d \<le> month_days (InLeapYear y) ! nat (m - 1)"
    and tz: "- msPerDay \<le> tz" "tz < 0"
  shows "date_of_time (new_Date (Date_Only_String y m d) tz) tz =
           Calendar_Date (WeekDay (MakeDay y (m - 1) d - 1)) (m - 1) (d - 1)"
proof -
  have m: "1 \<le> m" "m \<le> 12"
    using ok by (simp_all add: iso_date_ok_def)
  then have m': "nat (m - 1) < 12" by simp
  have "(MakeDay y (m - 1) d * msPerDay + tz) div msPerDay = MakeDay y (m - 1) d - 1"
    using day_of_shifted tz_west_div [OF tz] by simp
  also have "\<dots> = DayFromYear y + month_starts (InLeapYear y) ! nat (m - 1) + (d - 1) - 1"
    using MakeDay_valid [OF m, of y d] by simp
  finally have day: "(MakeDay y (m - 1) d * msPerDay + tz) div msPerDay =
      DayFromYear y + month_starts (InLeapYear y) ! nat (m - 1) + (d - 1) - 1" .
  have dd: "1 \<le> d - 1" "d - 1 \<le> month_days (InLeapYear y) ! nat (m - 1)"
    using d by simp_all
  show ?thesis
    using date_of_time_day [OF m' dd day] m day_of_shifted tz_west_div [OF tz]
    by (simp add: new_Date_date_only [OF ok])
qed

theorem date_only_string_west_witness:
  "iso_date_ok 2024 1 15 \<and>
   date_of_time (new_Date (Date_Only_String 2024 1 15) (-18000000)) (-18000000) =
     Calendar_Date (WeekDay (MakeDay 2024 (1 - 1) 15 - 1)) (1 - 1) (15 - 1) \<and>
   WeekDay (MakeDay 2024 (1 - 1) 15 - 1) = 0"
proof -
  have h: "iso_date_ok 2024 1 15" "2 \<le> (15::int)" "15 \<le> month_days (InLeapYear 2024) ! nat (1 - 1)"
    "- msPerDay \<le> -18000000" "(-18000000::int) < 0"
    by (simp_all add: iso_date_ok_def month_days_def msPerDay_def)
  have w: "WeekDay (MakeDay 2024 (1 - 1) 15 - 1) = 0"
    by code_simp
  show ?thesis
    using h w date_only_string_west [OF h] by simp
qed

text \<open>C25: at UTC and east of it (offset between zero and one day), a date-only string is
  read as the date it names, on its weekday.\<close>

theorem date_only_string_east:
  assumes ok: "iso_date_ok y m d" and d: "d \<le> month_days (InLeapYear y) ! nat (m - 1)"
    and tz: "0 \<le> tz" "tz < msPerDay"
  shows "date_of_time (new_Date (Date_Only_String y m d) tz) tz =
           Calendar_Date (WeekDay (MakeDay y (m - 1) d)) (m - 1) d"
proof -
  have m: "1 \<le> m" "m \<le> 12" and d1: "1 \<le> d"
    using ok by (simp_all add: iso_date_ok_def)
  then have m': "nat (m - 1) < 12" by simp
  have day: "(MakeDay y (m - 1) d * msPerDay + tz) div msPerDay =
      DayFromYear y + month_starts (InLeapYear y) ! nat (m - 1) + d - 1"
    using day_of_shifted tz_east_div [OF tz] MakeDay_valid [OF m, of y d] by simp
  show ?thesis
    using date_of_time_day [OF m' d1 d day] m day_of_shifted tz_east_div [OF tz]
    by (simp add: new_Date_date_only [OF ok])
qed

theorem date_only_string_east_witness:
  "iso_date_ok 2024 1 15 \<and>
   date_of_time (new_Date (Date_Only_String 2024 1 15) 3600000) 3600000 =
     Calendar_Date (WeekDay (MakeDay 2024 (1 - 1) 15)) (1 - 1) 15 \<and>
   WeekDay (MakeDay 2024 (1 - 1) 15) = 1"
proof -
  have h: "iso_date_ok 2024 1 15" "15 \<le> month_days (InLeapYear 2024) ! nat (1 - 1)"
    "0 \<le> (3600000::int)" "3600000 < msPerDay"
    by (simp_all add: iso_date_ok_def month_days_def msPerDay_def)
  have w: "WeekDay (MakeDay 2024 (1 - 1) 15) = 1"
    by code_simp
  show ?thesis
    using h w date_only_string_east [OF h] by simp
qed

lemma new_Date_local:
  assumes ok: "iso_date_ok y m d" and t: "0 \<le> hh" "hh < 24" "0 \<le> mm" "mm \<le> 59"
    and tz: "\<bar>tz\<bar> \<le> msPerDay"
  shows "new_Date (Local_Date_Time_String y m d hh mm) tz =
           Some (MakeDay y (m - 1) d * msPerDay + ((hh * 60 + mm) * 60000 - tz))"
proof -
  have "(hh * 60 + mm) * 60000 < msPerDay"
    using t by (simp add: msPerDay_def)
  moreover have "0 \<le> (hh * 60 + mm) * 60000"
    using t by simp
  ultimately have "\<bar>(hh * 60 + mm) * 60000 - tz\<bar> \<le> 2 * msPerDay"
    using tz by (simp add: abs_le_iff)
  from TimeClip_MakeDay_shift [OF ok this] ok t show ?thesis
    by (simp add: new_Date_def add_diff_eq)
qed

lemma date_of_time_Some: "date_of_time (Some t) tz \<noteq> Invalid_Date"
proof -
  obtain y where "YearFromDay ((t + tz) div msPerDay) = Some y"
    using YearFromDay_found by blast
  then show ?thesis
    by (simp add: date_of_time_def Let_def)
qed

text \<open>C27: a local date-time string (\<open>"YYYY-MM-DDTHH:mm"\<close>, no offset) is read as the
  date it names in every time zone (offset at most a day either way), for every time of the
  day from 00:00 to 23:59: the fix of C24 is to pass the date in this form.\<close>

theorem local_date_time_read:
  assumes ok: "iso_date_ok y m d" and d: "d \<le> month_days (InLeapYear y) ! nat (m - 1)"
    and t: "0 \<le> hh" "hh < 24" "0 \<le> mm" "mm \<le> 59" and tz: "\<bar>tz\<bar> \<le> msPerDay"
  shows "date_of_time (new_Date (Local_Date_Time_String y m d hh mm) tz) tz =
           Calendar_Date (WeekDay (MakeDay y (m - 1) d)) (m - 1) d"
proof -
  have m: "1 \<le> m" "m \<le> 12" and d1: "1 \<le> d"
    using ok by (simp_all add: iso_date_ok_def)
  then have m': "nat (m - 1) < 12" by simp
  let ?off = "(hh * 60 + mm) * 60000"
  have off: "0 \<le> ?off" "?off < msPerDay"
    using t by (simp_all add: msPerDay_def)
  have "(MakeDay y (m - 1) d * msPerDay + (?off - tz) + tz) div msPerDay =
      MakeDay y (m - 1) d + ?off div msPerDay"
    using day_of_shifted [of "MakeDay y (m - 1) d" ?off] by simp
  also have "?off div msPerDay = 0"
    using off by (rule tz_east_div)
  finally have day0: "(MakeDay y (m - 1) d * msPerDay + (?off - tz) + tz) div msPerDay =
      MakeDay y (m - 1) d" by simp
  then have day: "(MakeDay y (m - 1) d * msPerDay + (?off - tz) + tz) div msPerDay =
      DayFromYear y + month_starts (InLeapYear y) ! nat (m - 1) + d - 1"
    using MakeDay_valid [OF m, of y d] by simp
  have "date_of_time (Some (MakeDay y (m - 1) d * msPerDay + (?off - tz))) tz =
      Calendar_Date (WeekDay (MakeDay y (m - 1) d)) (m - 1) d"
    using date_of_time_day [OF m' d1 d day] m unfolding day0 by simp
  then show ?thesis
    unfolding new_Date_local [OF ok t tz] .
qed

theorem local_date_time_read_witness:
  "iso_date_ok 2024 1 15 \<and>
   date_of_time (new_Date (Local_Date_Time_String 2024 1 15 0 0) (-18000000)) (-18000000) =
     Calendar_Date (WeekDay (MakeDay 2024 (1 - 1) 15)) (1 - 1) 15 \<and>
   WeekDay (MakeDay 2024 (1 - 1) 15) = 1"
proof -
  have h: "iso_date_ok 2024 1 15" "15 \<le> month_days (InLeapYear 2024) ! nat (1 - 1)"
    "0 \<le> (0::int)" "(0::int) < 24" "0 \<le> (0::int)" "(0::int) \<le> 59" "\<bar>-18000000\<bar> \<le> msPerDay"
    by (simp_all add: iso_date_ok_def month_days_def msPerDay_def)
  have w: "WeekDay (MakeDay 2024 (1 - 1) 15) = 1"
    by code_simp
  show ?thesis
    using h w local_date_time_read [OF h] by simp
qed

end
