(* ===== verification/Spec2Isabelle.thy ===== *)
theory Spec2Isabelle
  imports Protocol Legality JsDate
begin

text \<open>
  \<^bold>\<open>A verified model of the calendar puzzle's board engine.\<close>

  The program is one Pinia store, \<open>useGameStore\<close> in \<open>src/src/stores/game.ts\<close>, and a
  helper \<open>findOccupiedCells\<close> in the same file. The UI (not in the repository) installs a
  layout with \<open>setboardState\<close>, asks \<open>canPlay\<close> before it calls \<open>placePiece\<close>, calls
  \<open>removePiece\<close> on a piece whose \<open>anchorCell\<close> it has recorded, \<open>resetGame\<close>, and
  \<open>checkWinner\<close> with the day's date. Every action that reads or changes cells calls the
  coverage resolver, which is the only shared routine; \<open>checkWinner\<close> also calls the
  JavaScript \<open>Date\<close> library.

  \<^bold>\<open>Theories and what they model.\<close>
  \<^item> \<open>Prelude\<close>: the JavaScript runtime the code relies on. \<open>find_idx\<close> is
    \<open>Array.prototype.find\<close> returning a reference; references are positions in the
    board list (the store's array holds its cells by reference, and the actions mutate
    cells through the references \<open>findOccupiedCells\<close> returns); \<open>for_each_ref\<close> is a
    \<open>forEach\<close> that writes fields through such references; \<open>js_at\<close> is indexing with
    \<open>undefined\<close> out of range. \<open>mark_refs\<close> is the pure reading of \<open>for_each_ref\<close>,
    and \<open>for_each_ref_eq_mark_refs\<close> proves them equal.
  \<^item> \<open>Board\<close>: the \<open>Cell\<close> and \<open>Piece\<close> interfaces (lines 3--21) as records,
    \<open>boardCols\<close> and the row-major id \<open>grid_id\<close>; the layout predicate \<open>wf_board\<close>
    (distinct ids, \<open>id = row * 9 + col + 1\<close>, columns 0..8) and the occupancy agreement
    \<open>board_consistent\<close>; a sample layout \<open>demo_board\<close> the witnesses run on.
  \<^item> \<open>Coverage\<close>: \<open>findOccupiedCells\<close> (lines 23--38) as \<open>cover_row\<close> (inner loop)
    and \<open>findOccupiedCells\<close> (outer loop) over \<open>cell_ref_at\<close> (the \<open>find\<close> of line
    32). Lemmas: membership, dependence on ids only, the bound by the shape's area and
    exactly when it is strict (C14), the geometric contract on well-formed boards (C3), no
    cell returned twice (C21), and the wrap-around past the right edge (C10).
  \<^item> \<open>Store\<close>: state record \<open>game_state\<close> (\<open>initBoardState\<close>, \<open>boardState\<close>),
    \<open>getboardState\<close>, \<open>setboardState\<close>, \<open>canPlay\<close>, \<open>placePiece\<close>,
    \<open>removePiece\<close>, \<open>resetGame\<close>, each a function from the state to the new state (or
    to the answer). The JSON deep copies are value semantics. Lemmas: what each mutator
    writes, cell by cell and field by field (C4, C5), legality on well-formed boards (C6,
    C7), the anchor cell never checked (C12), error paths (C15, C16).
  \<^item> \<open>Legality\<close>: the full-coverage rule spec section 4.2 asks implementers to weigh
    (\<open>canPlay_full\<close>, a specification, not code) and the geometric contract
    \<open>placement_ok\<close>. Lemmas: the strict rule is \<open>canPlay\<close> plus "no shape cell falls
    off", and it equals the geometric contract on well-formed boards (C22).
  \<^item> \<open>Winner\<close>: \<open>checkWinner\<close> (lines 96--118) with the \<open>Date\<close> object reduced to
    what the code reads of it (\<open>js_date\<close>), the name tables, \<open>Number.toString\<close>
    (\<open>nat_to_string\<close>) and the filter \<open>unOccupiedCells\<close>; the glossary's solved state as
    a specification (\<open>solved_exact\<close>). Lemmas: soundness and completeness of the win
    check (C8, C9), invalid dates (C17), and with three free cells a yes is an exact
    solution (C26).
  \<^item> \<open>JsDate\<close>: \<open>new Date(solveDate)\<close> and the getters of lines 97--100 after the
    ECMAScript \<open>Date\<close> algorithms: \<open>new_Date\<close> (date-only ISO strings are UTC midnight,
    date-time strings local time, a \<open>Date\<close> object is copied), \<open>date_of_time\<close> (the
    getters in local time), and \<open>checkWinner_arg\<close>, the whole action from its argument.
    Lemmas checking the runtime model against ECMAScript (not claims about the program):
    the year search ends within its fuel and is the specification's \<open>YearFromTime\<close>, and
    the calendar reads back what \<open>MakeDay\<close> builds. Lemmas about the program: the
    getters' ranges keep the table lookups of \<open>checkWinner\<close> defined (C23), a date-only
    string is read west (C24) and east (C25) of UTC, and a local date-time string is read
    as its own date in every zone (C27).
  \<^item> \<open>Game\<close>: the store as a state machine: \<open>game_op\<close> has one constructor per action,
    \<open>game_step\<close> runs it, \<open>reachable\<close> is the inductive set of states reachable from
    the initial store when installed layouts are well formed. Lemmas: the session invariant
    by rule induction (C2), the reset law (C11), and that any run changes cells only in
    their occupancy fields (C19).
  \<^item> \<open>Protocol\<close>: the calling protocol of the UI as an inductive set of sessions
    (\<open>legal_session\<close>: the store plus the ghost list of placed pieces with their
    recorded anchors; install a free well-formed layout, place only after \<open>canPlay\<close>
    with a fresh piece id, remove a placed piece, reset). Lemmas: the ownership invariant of
    spec section 3 by rule induction (C18), with covers recomputed from geometry
    (\<open>cover_of\<close>) as \<open>removePiece\<close> does; that removing every placed piece in
    turn brings back the installed layout without a reset (C20); and, outside the protocol,
    that two overlapping placements followed by a removal free a cell the second piece
    still covers (C13).
  \<^item> This theory: the round trip place-then-remove (C1), which spans coverage and both
    mutators, and the spec's scenarios and the findings evaluated on the sample layout
    (\<open>scenario_A_place_domino\<close>, \<open>scenario_D_first_match\<close>,
    \<open>canPlay_offgrid_overhang\<close>, \<open>checkWinner_date_string_time_zone\<close>).

  \<^bold>\<open>Choices.\<close> JavaScript numbers used as ids and indices are \<open>int\<close>; the
  arithmetic on them never comes near \<open>2^53\<close> on a board of a few dozen cells, so no
  rounding is modelled; time values are integral milliseconds below \<open>8.64 * 10^15\<close>
  (\<open>TimeClip\<close>), also exact. Every loop of \<open>game.ts\<close> is a structural recursion over
  a list, so no fuel is needed there. The one unbounded search is \<open>YearFromTime\<close>, which
  the specification defines as a largest year; \<open>year_search\<close> walks from 1970 with fuel
  \<open>|d| div 365 + 2\<close> for day \<open>d\<close>, enough because every year has at least 365 days (one
  step per year crossed, one to stop, one more when walking down), which \<open>YearFromDay_terminates\<close> proves. The
  pixel fields of a cell are carried but never read. The local time zone is a fixed
  offset.

  \<^bold>\<open>Not modelled.\<close> What is left of \<open>game.ts\<close> cannot be modelled
  faithfully in HOL, and the development ends here: the import and \<open>defineStore\<close>
  registration (lines 1 and 40) are Pinia's, and its reactivity is
  replaced by passing the state explicitly; \<open>console.log\<close> is output only and changes no
  state; the time-zone offset is fixed for a run, because the daylight-saving rules of the
  host's zone database are data outside the repository; strings outside the ISO date
  format are parsed by an implementation-defined algorithm, so they are modelled only as
  the unparsable argument; the UI that calls the store is not in the repository, and its
  protocol (spec section 5) is modelled as the legal sessions of \<open>Protocol\<close> instead.
  Every state-changing operation of the store is a definition here.

  \<^bold>\<open>Findings.\<close> The id formula has no column check, so shapes wrap to the next row
  instead of being cut off at the right edge (C10); \<open>canPlay\<close> never looks at the anchor
  itself, so a shape with an empty origin is playable on an occupied anchor (C12);
  \<open>placePiece\<close> and \<open>removePiece\<close> check neither legality nor ownership, so the
  ownership invariant rests on the caller using \<open>canPlay\<close> (C13, and C1's hypothesis);
  \<open>checkWinner\<close> takes the first free cell of each type and does not require the other
  cells to be covered (C8, C26, \<open>scenario_D_first_match\<close>); a shape hanging off the
  bottom of the grid is accepted (C14, \<open>canPlay_offgrid_overhang\<close>); a date-only
  string is parsed as UTC but read with local getters, so west of UTC the puzzle is checked
  against the previous day (C24, \<open>checkWinner_date_string_time_zone\<close>).
\<close>

section \<open>Sample states\<close>

definition demo_state :: game_state where
  "demo_state = setboardState init_state demo_board"

definition domino :: piece where
  "domino = \<lparr>piece_id = 7, shape = [[1, 1]], anchorCell = None\<rparr>"

definition monomino :: piece where
  "monomino = \<lparr>piece_id = 8, shape = [[1]], anchorCell = None\<rparr>"

text \<open>A vertical domino: its second cell is one row below the anchor.\<close>

definition v_domino :: piece where
  "v_domino = \<lparr>piece_id = 10, shape = [[1], [1]], anchorCell = None\<rparr>"

text \<open>The sample layout solved for Monday, January 15: two dominoes cover cells 8--9 and
  10--11, leaving MON, JAN and 15 free.\<close>

definition solved_state :: game_state where
  "solved_state =
     placePiece (placePiece demo_state \<lparr>piece_id = 1, shape = [[1, 1]], anchorCell = None\<rparr> 8)
       \<lparr>piece_id = 2, shape = [[1, 1]], anchorCell = None\<rparr> 10"

section \<open>Placing and removing a piece\<close>

text \<open>C1: the round-trip law of spec section 8. When \<open>canPlay\<close> allows a placement on a
  board whose cells agree on occupancy, placing the piece and then removing it (with its
  anchor recorded, as the caller does) gives back exactly the state before.\<close>

theorem place_remove_roundtrip:
  assumes play: "canPlay s p sid" and cons: "board_consistent (boardState s)"
  shows "removePiece (placePiece s p sid) (p\<lparr>anchorCell := Some sid\<rparr>) = s"
proof -
  let ?b = "boardState s"
  from play obtain a where fa: "find_anchor ?b sid = Some a"
    by (auto simp: canPlay_def split: option.splits)
  let ?cover = "findOccupiedCells (shape p) ?b (?b ! a)"
  let ?b' = "for_each_ref (occupy (piece_id p)) ?cover ?b"
  have refs: "\<forall>i \<in> set ?cover. i < length ?b"
    by (rule findOccupiedCells_refs_less)
  have place: "placePiece s p sid = s\<lparr>boardState := ?b'\<rparr>"
    by (simp add: placePiece_def fa)
  have ids: "map cell_id ?b' = map cell_id ?b"
    by (rule ids_for_each_ref_occupy)
  have fa': "find_idx (\<lambda>cell. Some (cell_id cell) = Some sid) ?b' = Some a"
    using find_idx_cong_map [OF ids, of "\<lambda>k. k = sid"] fa by (simp add: find_anchor_def)
  have a: "a < length ?b"
    using fa by (rule find_anchor_less)
  have pos: "rowIndex (?b' ! a) = rowIndex (?b ! a)" "colIndex (?b' ! a) = colIndex (?b ! a)"
    using a refs by (simp_all add: nth_for_each_ref occupy_def)
  have cover': "findOccupiedCells (shape p) ?b' (?b' ! a) = ?cover"
    by (rule findOccupiedCells_cong [OF ids pos])
  have free: "\<not> isOccupied (?b ! i) \<and> pieceId (?b ! i) = None" if "i \<in> set ?cover" for i
  proof -
    from play fa that have "\<not> isOccupied (?b ! i)"
      by (auto simp: canPlay_def list_all_iff blocks_piece_def)
    moreover have "cell_consistent (?b ! i)"
      using cons refs that by (blast intro: board_consistent_nth)
    ultimately show ?thesis by (simp add: cell_consistent_def)
  qed
  have restored: "for_each_ref vacate ?cover ?b' = ?b"
  proof (rule nth_equalityI)
    show "length (for_each_ref vacate ?cover ?b') = length ?b"
      by (simp add: length_for_each_ref)
  next
    fix j
    assume "j < length (for_each_ref vacate ?cover ?b')"
    then have j: "j < length ?b" by (simp add: length_for_each_ref)
    have refs': "\<forall>i \<in> set ?cover. i < length ?b'"
      using refs by (simp add: length_for_each_ref)
    show "for_each_ref vacate ?cover ?b' ! j = ?b ! j"
      using j refs refs' free
      by (simp add: nth_for_each_ref length_for_each_ref vacate_occupy)
  qed
  show ?thesis
    using place fa' cover' restored by (simp add: removePiece_def)
qed

theorem place_remove_roundtrip_witness:
  "canPlay demo_state domino 1 \<and> board_consistent (boardState demo_state) \<and>
   removePiece (placePiece demo_state domino 1) (domino\<lparr>anchorCell := Some 1\<rparr>) = demo_state"
proof -
  have h: "canPlay demo_state domino 1" "board_consistent (boardState demo_state)"
    by code_simp+
  show ?thesis
    using h place_remove_roundtrip [OF h] by blast
qed

section \<open>Spec scenarios, evaluated\<close>

text \<open>The scenarios of spec section 8 and the divergences recorded in the findings, run
  on the sample layout. They are concrete instances of the general theorems above and in the
  component theories, kept as executable documentation.\<close>

text \<open>Spec section 8, scenario A. On the 9-column board, the shape \<open>[[1,1]]\<close>
  anchored at cell 1 covers cells 1 and 2, and placing it marks exactly those two cells
  occupied with the piece's id.\<close>

theorem scenario_A_place_domino:
  "map cell_id (map (\<lambda>i. boardState demo_state ! i)
      (findOccupiedCells (shape domino) (boardState demo_state) (boardState demo_state ! 0))) = [1, 2] \<and>
   map (\<lambda>c. (isOccupied c, pieceId c)) (boardState (placePiece demo_state domino 1)) =
     [(True, Some 7), (True, Some 7), (False, None), (False, None), (False, None),
      (False, None), (False, None), (False, None)]"
  by code_simp

text \<open>Spec section 8, scenario D, and the first-match policy of section 9. For
  Monday, January 15 the check succeeds on the untouched sample board, where the day cell
  MON, the month cell JAN and the date cell 15 are the first free cells of their types, even
  though four more date cells (16 to 19) are uncovered; it fails for the 16th.\<close>

theorem scenario_D_first_match:
  "checkWinner demo_state (Calendar_Date 1 0 15) \<and>
   \<not> checkWinner demo_state (Calendar_Date 1 0 16) \<and>
   length (filter (\<lambda>c. cell_type c = ''date'') (unOccupiedCells (boardState demo_state))) = 5"
  by code_simp

text \<open>Spec sections 4.2 and 9, the permissive policy as the code has it. On the sample
  layout (two rows), a vertical domino anchored on cell 11 (row 1, column 1) has its lower
  cell on row 2, where the board has no cell: \<open>canPlay\<close> accepts the placement and
  \<open>placePiece\<close> marks only cell 11, while the full-coverage rule rejects it.\<close>

theorem canPlay_offgrid_overhang:
  "canPlay demo_state v_domino 11 \<and> \<not> canPlay_full demo_state v_domino 11 \<and>
   map cell_id (filter isOccupied (boardState (placePiece demo_state v_domino 11))) = [11]"
  by code_simp

text \<open>The date-only string, end to end. On the board solved for Monday, January 15,
  \<open>checkWinner("2024-01-15")\<close> is true at UTC but false five hours west of UTC, where the
  string is read as Sunday the 14th; the local date-time string \<open>"2024-01-15T00:00"\<close>
  is true there, and a string that does not parse is false.\<close>

theorem checkWinner_date_string_time_zone:
  "checkWinner_arg solved_state (Date_Only_String 2024 1 15) 0 \<and>
   \<not> checkWinner_arg solved_state (Date_Only_String 2024 1 15) (-18000000) \<and>
   checkWinner_arg solved_state (Local_Date_Time_String 2024 1 15 0 0) (-18000000) \<and>
   \<not> checkWinner_arg solved_state Unparsable_String 0"
  by code_simp

end
